theory Spec2Isabelle
  imports Main "HOL-Library.Sublist" "HOL-Library.Char_ord" "HOL-Library.List_Lexorder"
    "HOL-Library.Multiset"
begin

section \<open>The reflection model of the host tool\<close>

text \<open>
  The plugin \<^verbatim>\<open>typedoc.plugin.mjs\<close> reads the reflection tree that TypeDoc hands to it.
  A JavaScript string is modelled as a \<^typ>\<open>string\<close>: one \<^typ>\<open>char\<close> per code unit, the
  code units being those of Latin-1 (U+0000 to U+00FF), so that the non-breaking space
  U+00A0 is the single character \<open>CHR 0xA0\<close>.
\<close>

datatype reflectionKind =
  Project | Module | Namespace | Enum | EnumMember | Variable | Function | Class
  | Interface | Constructor | Property | Method | CallSignature | IndexSignature
  | ConstructorSignature | Parameter | TypeLiteral | TypeParameter | Accessor
  | GetSignature | SetSignature | TypeAlias | Reference | Document

text \<open>A comment display part, a block tag (\<^verbatim>\<open>@category ...\<close>) and a comment.\<close>

datatype commentDisplayPart = CommentDisplayPart (partKind: string) (partText: string)

datatype commentTag = CommentTag (tag: string) (content: "commentDisplayPart list")

datatype comment = Comment (summary: "commentDisplayPart list") (blockTags: "commentTag list")

text \<open>
  A declaration reflection. Its \<open>type\<close> is absent, an inline object type
  (\<^verbatim>\<open>typedoc.ReflectionType\<close>, which owns a declaration of its own) or any other type;
  \<open>children\<close> is absent (\<^verbatim>\<open>undefined\<close>) or a list.
\<close>

datatype reflection =
  DeclarationReflection
    (kind: reflectionKind)
    (name: string)
    (comment: "comment option")
    (type: "someType option")
    (children: "reflection list option")
and someType =
  ReflectionType (declaration_of: reflection)
  | OtherType string

text \<open>
  What a router is asked about: a declaration reflection, or any other target
  (the project, a signature, a parameter, ...), none of which is of kind Property.
\<close>

datatype routerTarget = DeclarationTarget reflection | OtherTarget string

text \<open>The two methods that \<^verbatim>\<open>SchemaReferenceRouter\<close> overrides.\<close>

record router =
  getFullUrl :: "routerTarget \<Rightarrow> string"
  getAnchor :: "routerTarget \<Rightarrow> string"

text \<open>Children handed to \<^verbatim>\<open>JSX.createElement\<close>: an element or an array of children.\<close>

datatype 'e jsxChildren = Element 'e | Children "'e jsxChildren list"

text \<open>The four partials of the theme's render context that the plugin calls.\<close>

record 'e renderContext =
  reflectionPreview :: "reflection \<Rightarrow> 'e option"
  commentSummary :: "reflection \<Rightarrow> 'e"
  memberDeclaration :: "reflection \<Rightarrow> 'e"
  member :: "reflection \<Rightarrow> 'e"

record pageDefinition =
  pd_model :: routerTarget
  pd_url :: string
  pd_kind :: string

record 'p pageEvent =
  model :: routerTarget
  url :: string
  filename :: string
  pageKind :: string
  project :: 'p

text \<open>
  The functions of TypeDoc (and of the JavaScript runtime) that the plugin calls and that
  are not part of the plugin: they are parameters of the model. The page planner and the
  render context receive the router, since they may call the overridden methods.
\<close>

record ('p, 'e) typedoc =
  Reflection_hasComment :: "reflection \<Rightarrow> bool"
  Reflection_getFriendlyFullName :: "reflection \<Rightarrow> string"
  StructureRouter_getFullUrl :: "routerTarget \<Rightarrow> string"
  StructureRouter_buildPages :: "router \<Rightarrow> 'p \<Rightarrow> pageDefinition list"
  DefaultTheme_getRenderContext :: "router \<Rightarrow> 'p pageEvent \<Rightarrow> 'e renderContext"
  JSX_renderElement :: "'e jsxChildren \<Rightarrow> string"
  String_localeCompare :: "string \<Rightarrow> string \<Rightarrow> int"

section \<open>Comment presence\<close>

text \<open>
  \<^verbatim>\<open>function hasComment(member) {
    return member.hasComment() || (
      member.type instanceof typedoc.ReflectionType &&
      !!member.type.declaration.children?.some((child) => hasComment(child)));
  }\<close>
  The pattern of the case reads: the type is a \<^verbatim>\<open>ReflectionType\<close> and the children
  of its declaration are present; \<^verbatim>\<open>member.hasComment()\<close> is the host's method.
\<close>

fun hasComment :: "('p, 'e) typedoc \<Rightarrow> reflection \<Rightarrow> bool" where
  "hasComment td m =
     (Reflection_hasComment td m \<or>
      (case m of
         DeclarationReflection _ _ _ (Some (ReflectionType (DeclarationReflection _ _ _ _ (Some cs)))) _ \<Rightarrow>
           list_ex (\<lambda>child. hasComment td child) cs
       | _ \<Rightarrow> False))"

declare hasComment.simps [simp del]

text \<open>The children reached through an inline object type.\<close>

definition nestedChildren :: "reflection \<Rightarrow> reflection list" where
  "nestedChildren m =
     (case type m of
        Some (ReflectionType d) \<Rightarrow> (case children d of None \<Rightarrow> [] | Some cs \<Rightarrow> cs)
      | _ \<Rightarrow> [])"

text \<open>A node and everything below it through inline object types.\<close>

function descendants :: "reflection \<Rightarrow> reflection list" where
  "descendants m = m # concat (map descendants (nestedChildren m))"
  by pat_completeness auto
termination
proof (relation "measure size")
  show "wf (measure (size :: reflection \<Rightarrow> nat))"
    by simp
next
  fix m c :: reflection
  assume c: "c \<in> set (nestedChildren m)"
  have below: "size x < size d" if "children d = Some cs" and "x \<in> set cs" for x d cs
  proof -
    from that(2) have "size x \<le> size_list size cs"
      by (rule size_list_estimation') simp
    with that(1) show ?thesis
      by (cases d) simp
  qed
  from c have "\<exists>d cs. type m = Some (ReflectionType d) \<and> children d = Some cs \<and> c \<in> set cs"
  proof (cases "type m")
    case None
    with c show ?thesis
      by (simp add: nestedChildren_def)
  next
    case (Some t)
    with c show ?thesis
      by (cases t; cases "children (declaration_of t)") (simp_all add: nestedChildren_def)
  qed
  then obtain d cs where "type m = Some (ReflectionType d)" and "children d = Some cs"
    and "c \<in> set cs"
    by blast
  then have "size c < size d" and "size d < size m"
    using below by (cases m; simp)+
  then show "(c, m) \<in> measure size"
    by simp
qed

declare descendants.simps [simp del]

text \<open>A property (or any declaration) whose type is the inline object type with the given children.\<close>

definition inlineRecord :: "reflectionKind \<Rightarrow> string \<Rightarrow> reflection list \<Rightarrow> reflection" where
  "inlineRecord k n cs =
     DeclarationReflection k n None
       (Some (ReflectionType (DeclarationReflection TypeLiteral ''__type'' None None (Some cs))))
       None"

section \<open>JavaScript string functions\<close>

text \<open>\<^verbatim>\<open>s.replace(pat, rep)\<close> with a string pattern: the first occurrence only.\<close>

fun replaceFirst :: "string \<Rightarrow> string \<Rightarrow> string \<Rightarrow> string" where
  "replaceFirst pat rep [] = (if pat = [] then rep else [])"
| "replaceFirst pat rep (c # s) =
     (if prefix pat (c # s) then rep @ drop (length pat) (c # s)
      else c # replaceFirst pat rep s)"

text \<open>
  \<^verbatim>\<open>s.replaceAll(pattern, replacement)\<close>: the string is scanned from the left; where the
  pattern matches (the matcher gives the length of the match and the text that replaces
  it) the replacement is emitted and the scan goes on after the match; elsewhere one
  character is copied. None of the patterns of the plugin matches the empty string.
\<close>

fun replaceAllBy :: "(string \<Rightarrow> (nat \<times> string) option) \<Rightarrow> string \<Rightarrow> string" where
  "replaceAllBy m [] = []"
| "replaceAllBy m (c # s) =
     (case m (c # s) of
        Some (n, rep) \<Rightarrow> rep @ replaceAllBy m (drop (n - 1) s)
      | None \<Rightarrow> c # replaceAllBy m s)"

text \<open>A string pattern (not empty) and its replacement.\<close>

definition match_string :: "string \<Rightarrow> string \<Rightarrow> string \<Rightarrow> (nat \<times> string) option" where
  "match_string pat rep s = (if prefix pat s then Some (length pat, rep) else None)"

text \<open>\<^verbatim>\<open>/[./#]/g\<close>, replaced by a hyphen.\<close>

definition match_separator :: "string \<Rightarrow> (nat \<times> string) option" where
  "match_separator s =
     (case s of
        c # _ \<Rightarrow> if c \<in> set ''./#'' then Some (1, ''-'') else None
      | [] \<Rightarrow> None)"

text \<open>
  \<^verbatim>\<open>toLowerCase()\<close> on Latin-1 code units: A to Z, and U+00C0 to U+00DE except the
  multiplication sign U+00D7, move up by 32; every other code unit stays.
\<close>

definition toLowerCase_char :: "char \<Rightarrow> char" where
  "toLowerCase_char c =
     (let n = (of_char c :: nat)
      in if (65 \<le> n \<and> n \<le> 90) \<or> (192 \<le> n \<and> n \<le> 222 \<and> n \<noteq> 215)
         then char_of (n + 32) else c)"

definition toLowerCase :: "string \<Rightarrow> string" where
  "toLowerCase s = map toLowerCase_char s"

text \<open>\<^verbatim>\<open>xs.join(sep)\<close> on an array of strings.\<close>

fun join :: "string \<Rightarrow> string list \<Rightarrow> string" where
  "join sep [] = []"
| "join sep [x] = x"
| "join sep (x # y # ys) = x @ sep @ join sep (y # ys)"

section \<open>Addressing scheme\<close>

definition kindOf :: "reflection \<Rightarrow> reflectionKind \<Rightarrow> bool" where
  "kindOf r k = (kind r = k)"

text \<open>
  \<^verbatim>\<open>getAnchor(target) {
    if (target instanceof typedoc.DeclarationReflection &&
        target.kindOf(typedoc.ReflectionKind.Property) && !hasComment(target)) {
      return "";
    } else {
      return super.getFullUrl(target).replace(".html", "").replaceAll(/[./#]/g, "-").toLowerCase();
    }
  }\<close>
\<close>

definition SchemaReferenceRouter_getAnchor :: "('p, 'e) typedoc \<Rightarrow> routerTarget \<Rightarrow> string" where
  "SchemaReferenceRouter_getAnchor td target =
     (if (case target of
            DeclarationTarget r \<Rightarrow> kindOf r Property \<and> \<not> hasComment td r
          | OtherTarget _ \<Rightarrow> False)
      then ''''
      else toLowerCase
             (replaceAllBy match_separator
                (replaceFirst ''.html'' '''' (StructureRouter_getFullUrl td target))))"

definition SchemaReferenceRouter_getFullUrl :: "('p, 'e) typedoc \<Rightarrow> routerTarget \<Rightarrow> string" where
  "SchemaReferenceRouter_getFullUrl td target = ''#'' @ SchemaReferenceRouter_getAnchor td target"

definition SchemaReferenceRouter :: "('p, 'e) typedoc \<Rightarrow> router" where
  "SchemaReferenceRouter td =
     \<lparr> getFullUrl = SchemaReferenceRouter_getFullUrl td,
       getAnchor = SchemaReferenceRouter_getAnchor td \<rparr>"

section \<open>Categories\<close>

text \<open>\<^verbatim>\<open>comment.getTag(name)\<close>: the first block tag of that name.\<close>

definition getTag :: "comment \<Rightarrow> string \<Rightarrow> commentTag option" where
  "getTag c t = find (\<lambda>x. tag x = t) (blockTags c)"

text \<open>
  \<^verbatim>\<open>function getReflectionCategory(reflection) {
    const categoryTag = reflection.comment?.getTag("@category");
    return categoryTag ? categoryTag.content.map((part) => part.text).join(" ") : "";
  }\<close>
\<close>

definition getReflectionCategory :: "reflection \<Rightarrow> string" where
  "getReflectionCategory r =
     (let categoryTag = (case comment r of None \<Rightarrow> None | Some c \<Rightarrow> getTag c ''@category'')
      in case categoryTag of
           Some t \<Rightarrow> join '' '' (map partText (content t))
         | None \<Rightarrow> '''')"

text \<open>
  \<^verbatim>\<open>function renderCategory(category) {
    let heading = category || "Common Types";
    if (heading.match(/^[a-z]/)) heading = "`" + heading + "`";
    return `## ${heading}\n`;
  }\<close>
\<close>

definition startsLowerAZ :: "string \<Rightarrow> bool" where
  "startsLowerAZ s = (case s of [] \<Rightarrow> False | c # _ \<Rightarrow> c \<in> set ''abcdefghijklmnopqrstuvwxyz'')"

definition renderCategory :: "string \<Rightarrow> string" where
  "renderCategory category =
     (let heading = (if category = [] then ''Common Types'' else category);
          heading = (if startsLowerAZ heading then ''`'' @ heading @ ''`'' else heading)
      in ''## '' @ heading @ ''\<newline>'')"

section \<open>Rendering one declaration\<close>

abbreviation nbsp :: char where
  "nbsp \<equiv> CHR 0xA0"

abbreviation newline :: char where
  "newline \<equiv> CHR 0x0A"

text \<open>\<^verbatim>\<open>/<h([1-6])/g\<close>, replaced by \<^verbatim>\<open><div data-typedoc-h="$1"\<close>.\<close>

definition divTag :: "char \<Rightarrow> string" where
  \<open>divTag d = ''<div data-typedoc-h="'' @ [d] @ ''"''\<close>

definition match_hOpen :: "string \<Rightarrow> (nat \<times> string) option" where
  "match_hOpen s =
     (case s of
        a # b # d # _ \<Rightarrow>
          if a = CHR ''<'' \<and> b = CHR ''h'' \<and> d \<in> set ''123456'' then Some (3, divTag d) else None
      | _ \<Rightarrow> None)"

text \<open>\<^verbatim>\<open>/<\/h[1-6]>/g\<close>, replaced by \<^verbatim>\<open></div>\<close>.\<close>

definition match_hClose :: "string \<Rightarrow> (nat \<times> string) option" where
  "match_hClose s =
     (case s of
        a # b # c # d # e # _ \<Rightarrow>
          if a = CHR ''<'' \<and> b = CHR ''/'' \<and> c = CHR ''h'' \<and> d \<in> set ''123456'' \<and> e = CHR ''>''
          then Some (5, ''</div>'') else None
      | _ \<Rightarrow> None)"

text \<open>
  \<^verbatim>\<open>/\n+</g\<close>, replaced by a space and \<^verbatim>\<open><\<close>: the longest run of newlines, then
  \<^verbatim>\<open><\<close>. A shorter run cannot match, since a newline follows it.
\<close>

definition match_newlines :: "string \<Rightarrow> (nat \<times> string) option" where
  "match_newlines s =
     (let n = length (takeWhile (\<lambda>c. c = newline) s)
      in if 1 \<le> n \<and> prefix ''<'' (drop n s) then Some (n + 1, '' <'') else None)"

text \<open>
  \<^verbatim>\<open>/<p>@TJS-type [^<]+<\/p>/g\<close>, replaced by the empty string: after the opening text,
  the longest run of characters other than \<^verbatim>\<open><\<close> (one at least), then \<^verbatim>\<open></p>\<close>.
  A shorter run cannot match, since it is not followed by \<^verbatim>\<open><\<close>.
\<close>

definition match_TJS :: "string \<Rightarrow> (nat \<times> string) option" where
  "match_TJS s =
     (if prefix ''<p>@TJS-type '' s
      then (let body = takeWhile (\<lambda>c. c \<noteq> CHR ''<'') (drop 13 s)
            in if body \<noteq> [] \<and> prefix ''</p>'' (drop (13 + length body) s)
               then Some (13 + length body + 4, '''') else None)
      else None)"

text \<open>
  The rewrites of \<^verbatim>\<open>renderReflection\<close>, in the order of the source:
  \<^verbatim>\<open>content = content.
    replaceAll(/<h([1-6])/g, `<div data-typedoc-h="$1"`).
    replaceAll(/<\/h[1-6]>/g, `</div>`);
  content = content.replaceAll("\u00A0\u00A0", "\u00A0");
  content = content.
    replaceAll("\u00A0", "&nbsp;").
    replaceAll(/\n+</g, " <").
    replaceAll("[", "&#x5B;").
    replaceAll("_", "&#x5F;").
    replaceAll("{", "&#x7B;");
  content = content.replaceAll(/<p>@TJS-type [^<]+<\/p>/g, "");\<close>
\<close>

definition convertHeadings :: "string \<Rightarrow> string" where
  "convertHeadings markup = replaceAllBy match_hClose (replaceAllBy match_hOpen markup)"

definition reduceIndent :: "string \<Rightarrow> string" where
  "reduceIndent markup = replaceAllBy (match_string [nbsp, nbsp] [nbsp]) markup"

definition encodeNbsp :: "string \<Rightarrow> string" where
  "encodeNbsp markup = replaceAllBy (match_string [nbsp] ''&nbsp;'') markup"

definition joinTagLines :: "string \<Rightarrow> string" where
  "joinTagLines markup = replaceAllBy match_newlines markup"

definition escapeMarkdown :: "string \<Rightarrow> string" where
  "escapeMarkdown markup =
     replaceAllBy (match_string ''{'' ''&#x7B;'')
       (replaceAllBy (match_string ''_'' ''&#x5F;'')
          (replaceAllBy (match_string ''['' ''&#x5B;'') markup))"

definition removeTJS :: "string \<Rightarrow> string" where
  "removeTJS markup = replaceAllBy match_TJS markup"

text \<open>The rewrites up to and including the escapes, and all of them.\<close>

definition sanitizeEscaped :: "string \<Rightarrow> string" where
  "sanitizeEscaped markup =
     escapeMarkdown (joinTagLines (encodeNbsp (reduceIndent (convertHeadings markup))))"

definition sanitize :: "string \<Rightarrow> string" where
  "sanitize markup = removeTJS (sanitizeEscaped markup)"

text \<open>
  \<^verbatim>\<open>function renderJsxElements(...elements) {
    return typedoc.JSX.renderElement(
      typedoc.JSX.createElement(typedoc.JSX.Fragment, null, elements));
  }\<close>
  The fragment has one child, the array of the arguments.
\<close>

definition renderJsxElements :: "('p, 'e) typedoc \<Rightarrow> 'e jsxChildren list \<Rightarrow> string" where
  "renderJsxElements td elements = JSX_renderElement td (Children [Children elements])"

text \<open>
  \<^verbatim>\<open>const members = reflection.children?.filter(hasComment) ?? [];\<close>
\<close>

definition members :: "('p, 'e) typedoc \<Rightarrow> reflection \<Rightarrow> reflection list" where
  "members td r = (case children r of None \<Rightarrow> [] | Some cs \<Rightarrow> filter (hasComment td) cs)"

text \<open>
  \<^verbatim>\<open>let content = renderJsxElements(
    codeBlock ? [codeBlock, context.commentSummary(reflection)]
              : context.memberDeclaration(reflection),
    members.map(member => context.member(member)));\<close>
\<close>

definition contentElements :: "('p, 'e) typedoc \<Rightarrow> 'e renderContext \<Rightarrow> reflection \<Rightarrow> 'e jsxChildren list" where
  "contentElements td ctx r =
     [case reflectionPreview ctx r of
        Some codeBlock \<Rightarrow> Children [Element codeBlock, Element (commentSummary ctx r)]
      | None \<Rightarrow> Element (memberDeclaration ctx r),
      Children (map (\<lambda>m. Element (member ctx m)) (members td r))]"

text \<open>
  \<^verbatim>\<open>const name = reflection.getFriendlyFullName();
  ...
  return `### \`${name}\`\n\n${content}\n`;\<close>
\<close>

definition renderReflection :: "('p, 'e) typedoc \<Rightarrow> reflection \<Rightarrow> 'e renderContext \<Rightarrow> string" where
  "renderReflection td r ctx =
     (let name = Reflection_getFriendlyFullName td r;
          markup = renderJsxElements td (contentElements td ctx r);
          markup = sanitize markup
      in ''### `'' @ name @ ''`'' @ [newline, newline] @ markup @ [newline])"

section \<open>Assembling the page\<close>

text \<open>
  \<^verbatim>\<open>for (const pageDefinition of router.buildPages(project)) {
    const event = new typedoc.PageEvent(pageDefinition.model)
    event.url = pageDefinition.url;
    event.filename = pageDefinition.url;
    event.pageKind = pageDefinition.kind;
    event.project = project;
    events.push(event)
  }\<close>
\<close>

definition buildPageEvents :: "('p, 'e) typedoc \<Rightarrow> 'p \<Rightarrow> router \<Rightarrow> 'p pageEvent list" where
  "buildPageEvents td proj rt =
     map (\<lambda>pd. \<lparr> model = pd_model pd, url = pd_url pd, filename = pd_url pd,
                 pageKind = pd_kind pd, project = proj \<rparr>)
         (StructureRouter_buildPages td rt proj)"

text \<open>\<^verbatim>\<open>event.model instanceof typedoc.DeclarationReflection\<close>, with the declaration.\<close>

definition isDeclarationReflectionEvent :: "'p pageEvent \<Rightarrow> ('p pageEvent \<times> reflection) option" where
  "isDeclarationReflectionEvent event =
     (case model event of DeclarationTarget r \<Rightarrow> Some (event, r) | OtherTarget _ \<Rightarrow> None)"

text \<open>
  \<^verbatim>\<open>xs.sort(comparefn)\<close>: the sort is stable; an element stays before a later one
  unless the comparison of the two is positive.
\<close>

fun insertBy :: "('a \<Rightarrow> 'a \<Rightarrow> int) \<Rightarrow> 'a \<Rightarrow> 'a list \<Rightarrow> 'a list" where
  "insertBy cmp x [] = [x]"
| "insertBy cmp x (y # ys) = (if cmp x y \<le> 0 then x # y # ys else y # insertBy cmp x ys)"

fun sortBy :: "('a \<Rightarrow> 'a \<Rightarrow> int) \<Rightarrow> 'a list \<Rightarrow> 'a list" where
  "sortBy cmp [] = []"
| "sortBy cmp (x # xs) = insertBy cmp x (sortBy cmp xs)"

text \<open>
  \<^verbatim>\<open>const declarationEvents = events.
    filter(isDeclarationReflectionEvent).
    sort((event1, event2) => event1.model.name.localeCompare(event2.model.name));\<close>
\<close>

definition declarationEvents :: "('p, 'e) typedoc \<Rightarrow> 'p pageEvent list \<Rightarrow> ('p pageEvent \<times> reflection) list" where
  "declarationEvents td events =
     sortBy (\<lambda>e1 e2. String_localeCompare td (name (snd e1)) (name (snd e2)))
       (List.map_filter isDeclarationReflectionEvent events)"

text \<open>
  A JavaScript \<^verbatim>\<open>Map\<close> from category to outputs keeps its keys in the order of their
  first insertion: an association list with distinct keys.
\<close>

type_synonym outputs = "(string \<times> string list) list"

definition Map_has :: "outputs \<Rightarrow> string \<Rightarrow> bool" where
  "Map_has m k = (k \<in> set (map fst m))"

definition Map_get :: "outputs \<Rightarrow> string \<Rightarrow> string list option" where
  "Map_get m k = map_of m k"

fun Map_set :: "outputs \<Rightarrow> string \<Rightarrow> string list \<Rightarrow> outputs" where
  "Map_set [] k v = [(k, v)]"
| "Map_set ((k', v') # m) k v = (if k' = k then (k, v) # m else (k', v') # Map_set m k v)"

definition Map_keys :: "outputs \<Rightarrow> string list" where
  "Map_keys m = map fst m"

text \<open>\<^verbatim>\<open>outputsByCategory.get(category)?.push(rendered)\<close>: the array is changed in place.\<close>

fun Map_push :: "outputs \<Rightarrow> string \<Rightarrow> string \<Rightarrow> outputs" where
  "Map_push [] k x = []"
| "Map_push ((k', v') # m) k x = (if k' = k then (k', v' @ [x]) # m else (k', v') # Map_push m k x)"

text \<open>
  \<^verbatim>\<open>for (const event of declarationEvents) {
    const category = getReflectionCategory(event.model);
    const rendered = renderReflection(event.model, theme.getRenderContext(event));
    if (!outputsByCategory.has(category)) {
      outputsByCategory.set(category, [renderCategory(category)]);
    }
    outputsByCategory.get(category)?.push(rendered);
  }\<close>
\<close>

fun collectOutputs ::
  "('p, 'e) typedoc \<Rightarrow> ('p pageEvent \<Rightarrow> 'e renderContext) \<Rightarrow> ('p pageEvent \<times> reflection) list \<Rightarrow> outputs \<Rightarrow> outputs" where
  "collectOutputs td theme [] outputsByCategory = outputsByCategory"
| "collectOutputs td theme ((event, r) # rest) outputsByCategory =
     (let category = getReflectionCategory r;
          rendered = renderReflection td r (theme event);
          outputsByCategory =
            (if \<not> Map_has outputsByCategory category
             then Map_set outputsByCategory category [renderCategory category]
             else outputsByCategory);
          outputsByCategory = Map_push outputsByCategory category rendered
      in collectOutputs td theme rest outputsByCategory)"

text \<open>
  \<^verbatim>\<open>return [...outputsByCategory.keys()].
    sort().flatMap((category) => outputsByCategory.get(category)).join("\n");\<close>
  Without a comparison function, \<^verbatim>\<open>sort()\<close> orders strings by their code units:
  the lexicographic order of \<^typ>\<open>string\<close>. A key that the map did not hold would
  contribute \<^verbatim>\<open>undefined\<close>, which \<^verbatim>\<open>join\<close> prints as the empty string.
\<close>

definition sortedCategories :: "outputs \<Rightarrow> string list" where
  "sortedCategories outputsByCategory = sort (Map_keys outputsByCategory)"

definition bucketsInOrder :: "outputs \<Rightarrow> string list list" where
  "bucketsInOrder outputsByCategory =
     map (\<lambda>category. case Map_get outputsByCategory category of
                        Some v \<Rightarrow> v | None \<Rightarrow> [''''])
         (sortedCategories outputsByCategory)"

definition assemble :: "outputs \<Rightarrow> string" where
  "assemble outputsByCategory = join [newline] (concat (bucketsInOrder outputsByCategory))"

definition renderPageEvents ::
  "('p, 'e) typedoc \<Rightarrow> 'p pageEvent list \<Rightarrow> ('p pageEvent \<Rightarrow> 'e renderContext) \<Rightarrow> string" where
  "renderPageEvents td events theme =
     assemble (collectOutputs td theme (declarationEvents td events) [])"

text \<open>
  The output callback that \<^verbatim>\<open>load\<close> registers; its value is the sequence of the
  chunks written to the standard output.
  \<^verbatim>\<open>app.renderer.router = new SchemaReferenceRouter(app);
  app.renderer.theme = new typedoc.DefaultTheme(app.renderer);
  ...
  const pageEvents = buildPageEvents(project, app.renderer.router);
  const rendered = renderPageEvents(pageEvents, app.renderer.theme);
  process.stdout.write(`---\n`);
  process.stdout.write(`title: Schema Reference\n`);
  process.stdout.write(`---\n\n`);
  process.stdout.write(`<div id="schema-reference" />\n\n`);
  process.stdout.write(rendered);
  await new Promise((resolve) => process.stdout.write("", () => resolve(undefined)));\<close>
\<close>

definition load :: "('p, 'e) typedoc \<Rightarrow> 'p \<Rightarrow> string list" where
  \<open>load td proj =
     (let rt = SchemaReferenceRouter td;
          theme = DefaultTheme_getRenderContext td rt;
          pageEvents = buildPageEvents td proj rt;
          rendered = renderPageEvents td pageEvents theme
      in [''---'' @ [newline],
          ''title: Schema Reference'' @ [newline],
          ''---'' @ [newline, newline],
          ''<div id="schema-reference" />'' @ [newline, newline],
          rendered,
          ''''])\<close>

definition stdout :: "string list \<Rightarrow> string" where
  "stdout writes = concat writes"

section \<open>The document as the specification describes it\<close>

text \<open>
  The categories of the declarations, the bucket of one category (its heading, then one
  rendered fragment for each declaration of that category, in the order of the
  declarations) and the body: the buckets in the order of their labels, all elements
  joined by single newlines.
\<close>

definition categoriesOf :: "('p pageEvent \<times> reflection) list \<Rightarrow> string list" where
  "categoriesOf decls = map (\<lambda>(event, r). getReflectionCategory r) decls"

definition fragmentsOf ::
  "('p, 'e) typedoc \<Rightarrow> ('p pageEvent \<Rightarrow> 'e renderContext) \<Rightarrow> ('p pageEvent \<times> reflection) list \<Rightarrow> string \<Rightarrow> string list" where
  "fragmentsOf td theme decls category =
     map (\<lambda>(event, r). renderReflection td r (theme event))
         (filter (\<lambda>(event, r). getReflectionCategory r = category) decls)"

definition bucketOf ::
  "('p, 'e) typedoc \<Rightarrow> ('p pageEvent \<Rightarrow> 'e renderContext) \<Rightarrow> ('p pageEvent \<times> reflection) list \<Rightarrow> string \<Rightarrow> string list" where
  "bucketOf td theme decls category = renderCategory category # fragmentsOf td theme decls category"

definition documentBody ::
  "('p, 'e) typedoc \<Rightarrow> ('p pageEvent \<Rightarrow> 'e renderContext) \<Rightarrow> ('p pageEvent \<times> reflection) list \<Rightarrow> string" where
  "documentBody td theme decls =
     join [newline]
       (concat (map (bucketOf td theme decls) (sort (remdups (categoriesOf decls)))))"

section \<open>A small host, for examples\<close>

text \<open>
  A host whose elements are strings: a fragment renders as the concatenation of its
  children, a project is the list of its declarations, a declaration has a comment when
  the comment is present, and names are compared by code units.
\<close>

fun renderChildren :: "string jsxChildren \<Rightarrow> string" where
  "renderChildren (Element e) = e"
| "renderChildren (Children cs) = concat (map renderChildren cs)"

definition compareCodeUnits :: "string \<Rightarrow> string \<Rightarrow> int" where
  "compareCodeUnits a b = (if a < b then - 1 else if a = b then 0 else 1)"

definition exampleContext :: "string renderContext" where
  "exampleContext =
     \<lparr> reflectionPreview =
         (\<lambda>r. if kind r = Interface then Some (''<pre>interface '' @ name r @ ''</pre>'') else None),
       commentSummary = (\<lambda>r. ''<p>About '' @ name r @ ''</p>''),
       memberDeclaration = (\<lambda>r. ''<code>'' @ name r @ ''</code>''),
       member = (\<lambda>r. ''<h4>'' @ name r @ ''</h4>'') \<rparr>"

definition exampleTypedoc :: "(reflection list, string) typedoc" where
  "exampleTypedoc =
     \<lparr> Reflection_hasComment = (\<lambda>r. comment r \<noteq> None),
       Reflection_getFriendlyFullName = name,
       StructureRouter_getFullUrl =
         (\<lambda>t. case t of DeclarationTarget r \<Rightarrow> ''types/'' @ name r @ ''.html''
                        | OtherTarget n \<Rightarrow> n),
       StructureRouter_buildPages =
         (\<lambda>rt proj. map (\<lambda>r. \<lparr> pd_model = DeclarationTarget r,
                                  pd_url = getFullUrl rt (DeclarationTarget r),
                                  pd_kind = ''reflection'' \<rparr>) proj),
       DefaultTheme_getRenderContext = (\<lambda>rt event. exampleContext),
       JSX_renderElement = renderChildren,
       String_localeCompare = compareCodeUnits \<rparr>"

text \<open>A comment with a summary and no tag; a comment with a category tag of the given parts.\<close>

definition plainComment :: "string \<Rightarrow> comment" where
  "plainComment s = Comment [CommentDisplayPart ''text'' s] []"

definition categoryComment :: "string list \<Rightarrow> comment" where
  "categoryComment parts =
     Comment [] [CommentTag ''@category'' (map (CommentDisplayPart ''text'') parts)]"

text \<open>A property with a comment, and a three-level record whose only comment is on it.\<close>

definition leafProperty :: reflection where
  "leafProperty = DeclarationReflection Property ''leaf'' (Some (plainComment ''The leaf.'')) None None"

definition middleRecord :: reflection where
  "middleRecord = inlineRecord Property ''middle'' [leafProperty]"

definition outerRecord :: reflection where
  "outerRecord = inlineRecord Property ''outer'' [middleRecord]"

text \<open>A property without any comment.\<close>

definition bareProperty :: reflection where
  "bareProperty = DeclarationReflection Property ''bare'' None None None"

text \<open>Three declarations with the category labels \<open>Tools\<close>, empty and \<open>prompts\<close>.\<close>

definition toolsDeclaration :: reflection where
  "toolsDeclaration =
     DeclarationReflection Interface ''Tool'' (Some (categoryComment [''Tools'']))
       None (Some [leafProperty])"

definition untaggedDeclaration :: reflection where
  "untaggedDeclaration =
     DeclarationReflection Interface ''Cursor'' None None (Some [bareProperty])"

definition promptsDeclaration :: reflection where
  "promptsDeclaration =
     DeclarationReflection TypeAlias ''Prompt_Name'' (Some (categoryComment [''prompts'']))
       None None"

definition exampleProject :: "reflection list" where
  "exampleProject = [toolsDeclaration, untaggedDeclaration, promptsDeclaration]"





definition splicedMarkup :: string where
  "splicedMarkup = ''<h1><<p>@TJS-type x</p>h1>''"

text \<open>
  A label that starts with the lower-case letter U+00E9, and a render context whose
  preview lists the names of all children of the declaration, as a signature does.
\<close>

definition accentedLabel :: string where
  "accentedLabel = CHR 0xE9 # ''clair''"

definition previewContext :: "string renderContext" where
  "previewContext =
     exampleContext
       \<lparr> reflectionPreview :=
           (\<lambda>r. Some (''<pre>interface '' @ name r @ '': '' @
                       concat (map (\<lambda>c. name c @ '';'')
                                 (case children r of None \<Rightarrow> [] | Some cs \<Rightarrow> cs)) @
                       ''</pre>'')) \<rparr>"

text \<open>A declaration whose name holds characters that the rewrites would change.\<close>

definition bracketDeclaration :: reflection where
  "bracketDeclaration = DeclarationReflection TypeAlias ''Row_[{<h1>'' None None None"

text \<open>A declaration whose category tag has two text parts.\<close>

definition twoPartDeclaration :: reflection where
  "twoPartDeclaration =
     DeclarationReflection Interface ''Two'' (Some (categoryComment [''Base'', ''Protocol'']))
       None None"

section \<open>Comment presence: properties\<close>

lemma hasComment_nested:
  "hasComment td m \<longleftrightarrow> Reflection_hasComment td m \<or> (\<exists>c \<in> set (nestedChildren m). hasComment td c)"
  by (subst hasComment.simps, cases m)
     (auto simp: nestedChildren_def list_ex_iff split: option.splits someType.splits reflection.splits)

lemma nestedChildren_iff:
  "c \<in> set (nestedChildren m) \<longleftrightarrow>
     (\<exists>d cs. type m = Some (ReflectionType d) \<and> children d = Some cs \<and> c \<in> set cs)"
proof (cases "type m")
  case None
  then show ?thesis by (simp add: nestedChildren_def)
next
  case (Some t)
  then show ?thesis
    by (cases t; cases "children (declaration_of t)") (simp_all add: nestedChildren_def)
qed

lemma nestedChildren_inlineRecord [simp]: "nestedChildren (inlineRecord k n cs) = cs"
  by (simp add: nestedChildren_def inlineRecord_def)

lemma hasComment_descendants:
  "hasComment td m \<longleftrightarrow> (\<exists>d \<in> set (descendants m). Reflection_hasComment td d)"
proof (induction m rule: descendants.induct)
  case (1 m)
  have "hasComment td m \<longleftrightarrow>
          Reflection_hasComment td m \<or> (\<exists>c \<in> set (nestedChildren m). hasComment td c)"
    by (rule hasComment_nested)
  also have "\<dots> \<longleftrightarrow> Reflection_hasComment td m \<or>
          (\<exists>c \<in> set (nestedChildren m). \<exists>d \<in> set (descendants c). Reflection_hasComment td d)"
    using "1.IH" by blast
  also have "\<dots> \<longleftrightarrow> (\<exists>d \<in> set (descendants m). Reflection_hasComment td d)"
    by (subst (2) descendants.simps) auto
  finally show ?case .
qed

text \<open>
  Claim C1. A node has documentation exactly when the host reports a comment on the node
  itself, or its type is an inline object type one of whose children has documentation;
  equivalently, when the node or something below it through inline object types carries
  a comment. A comment on a leaf therefore documents the record that holds the leaf and
  the record that holds that record.
\<close>

theorem hasComment_iff_documented:
  "(hasComment td S \<longleftrightarrow>
      Reflection_hasComment td S \<or>
      (\<exists>d cs. type S = Some (ReflectionType d) \<and> children d = Some cs \<and>
              (\<exists>c \<in> set cs. hasComment td c)))
   \<and> (hasComment td S \<longleftrightarrow> (\<exists>d \<in> set (descendants S). Reflection_hasComment td d))
   \<and> (Reflection_hasComment td leaf \<and> leaf \<in> set cs2 \<and> inlineRecord k2 n2 cs2 \<in> set cs1 \<longrightarrow>
        hasComment td leaf \<and> hasComment td (inlineRecord k2 n2 cs2) \<and>
        hasComment td (inlineRecord k1 n1 cs1))"
proof (intro conjI impI)
  show "hasComment td S \<longleftrightarrow>
      Reflection_hasComment td S \<or>
      (\<exists>d cs. type S = Some (ReflectionType d) \<and> children d = Some cs \<and>
              (\<exists>c \<in> set cs. hasComment td c))"
    by (subst hasComment_nested) (auto simp: nestedChildren_iff)
  show "hasComment td S \<longleftrightarrow> (\<exists>d \<in> set (descendants S). Reflection_hasComment td d)"
    by (rule hasComment_descendants)
next
  assume a: "Reflection_hasComment td leaf \<and> leaf \<in> set cs2 \<and> inlineRecord k2 n2 cs2 \<in> set cs1"
  then show leaf: "hasComment td leaf"
    by (subst hasComment_nested) simp
  with a show mid: "hasComment td (inlineRecord k2 n2 cs2)"
    by (subst hasComment_nested) auto
  with a show "hasComment td (inlineRecord k1 n1 cs1)"
    by (subst hasComment_nested) auto
qed

theorem hasComment_iff_documented_witness:
  "Reflection_hasComment exampleTypedoc leafProperty
   \<and> \<not> Reflection_hasComment exampleTypedoc middleRecord
   \<and> \<not> Reflection_hasComment exampleTypedoc outerRecord
   \<and> hasComment exampleTypedoc leafProperty
   \<and> hasComment exampleTypedoc middleRecord
   \<and> hasComment exampleTypedoc outerRecord
   \<and> \<not> hasComment exampleTypedoc bareProperty"
proof -
  have leaf: "Reflection_hasComment exampleTypedoc leafProperty"
    by (simp add: exampleTypedoc_def leafProperty_def)
  have middle: "\<not> Reflection_hasComment exampleTypedoc middleRecord"
    by (simp add: exampleTypedoc_def middleRecord_def inlineRecord_def)
  have outer: "\<not> Reflection_hasComment exampleTypedoc outerRecord"
    by (simp add: exampleTypedoc_def outerRecord_def inlineRecord_def)
  note inst = hasComment_iff_documented [of exampleTypedoc bareProperty leafProperty
      "[leafProperty]" Property "''middle''" "[middleRecord]" Property "''outer''"]
  have bare: "\<not> hasComment exampleTypedoc bareProperty"
    using inst [THEN conjunct1]
    by (simp add: exampleTypedoc_def bareProperty_def)
  have "hasComment exampleTypedoc leafProperty \<and> hasComment exampleTypedoc middleRecord \<and>
        hasComment exampleTypedoc outerRecord"
    using leaf inst [THEN conjunct2, THEN conjunct2]
    unfolding middleRecord_def outerRecord_def
    by simp
  with leaf middle outer bare show ?thesis
    by simp
qed

section \<open>Addressing scheme: properties\<close>

lemma of_char_toLowerCase_char:
  "(of_char (toLowerCase_char c) :: nat) =
     (if (65 \<le> (of_char c :: nat) \<and> (of_char c :: nat) \<le> 90) \<or>
         (192 \<le> (of_char c :: nat) \<and> (of_char c :: nat) \<le> 222 \<and> (of_char c :: nat) \<noteq> 215)
      then of_char c + 32 else of_char c)"
  by (simp add: toLowerCase_char_def Let_def)

lemma toLowerCase_char_idem: "toLowerCase_char (toLowerCase_char c) = toLowerCase_char c"
  by (auto simp: toLowerCase_char_def Let_def)

lemma separator_code: "c \<in> set ''./#'' \<longleftrightarrow> (of_char c :: nat) \<in> {46, 47, 35}"
proof -
  have "(of_char c :: nat) = of_char d \<longleftrightarrow> c = d" for d
    by (rule of_char_eq_iff)
  from this [of "CHR ''.''"] this [of "CHR ''/''"] this [of "CHR ''#''"] show ?thesis
    by auto
qed

lemma upper_code: "c \<in> set ''ABCDEFGHIJKLMNOPQRSTUVWXYZ'' \<Longrightarrow> 65 \<le> (of_char c :: nat) \<and> (of_char c :: nat) \<le> 90"
  by auto

lemma toLowerCase_char_separator:
  "toLowerCase_char c \<in> set ''./#'' \<Longrightarrow> c \<in> set ''./#''"
  unfolding separator_code of_char_toLowerCase_char
  by (auto split: if_splits)

lemma toLowerCase_idem: "toLowerCase (toLowerCase s) = toLowerCase s"
  by (simp add: toLowerCase_def toLowerCase_char_idem)

lemma toLowerCase_char_not_upper:
  "toLowerCase_char c \<notin> set ''ABCDEFGHIJKLMNOPQRSTUVWXYZ''"
proof
  assume "toLowerCase_char c \<in> set ''ABCDEFGHIJKLMNOPQRSTUVWXYZ''"
  then have "65 \<le> (of_char (toLowerCase_char c) :: nat) \<and> (of_char (toLowerCase_char c) :: nat) \<le> 90"
    by (rule upper_code)
  then show False
    unfolding of_char_toLowerCase_char by (simp split: if_splits)
qed

lemma replaceAllBy_separator: "c \<in> set (replaceAllBy match_separator s) \<Longrightarrow> c \<notin> set ''./#''"
  by (induction s) (auto simp: match_separator_def split: if_splits)

text \<open>
  Claim C2. For a declaration of kind Property without documentation the anchor is the
  empty string. The anchor of every symbol (so of every other symbol) is lower-case: it
  is its own \<open>toLowerCase\<close> and holds no letter from A to Z; and it holds none of the
  characters \<open>.\<close>, \<open>/\<close> and \<open>#\<close>.
\<close>

theorem getAnchor_policy:
  "(kindOf r Property \<and> \<not> hasComment td r \<longrightarrow>
      SchemaReferenceRouter_getAnchor td (DeclarationTarget r) = '''')
   \<and> toLowerCase (SchemaReferenceRouter_getAnchor td target) = SchemaReferenceRouter_getAnchor td target
   \<and> (\<forall>c \<in> set (SchemaReferenceRouter_getAnchor td target).
         c \<notin> set ''./#'' \<and> c \<notin> set ''ABCDEFGHIJKLMNOPQRSTUVWXYZ'')"
proof (intro conjI impI ballI)
  assume "kindOf r Property \<and> \<not> hasComment td r"
  then show "SchemaReferenceRouter_getAnchor td (DeclarationTarget r) = ''''"
    by (simp add: SchemaReferenceRouter_getAnchor_def)
next
  show "toLowerCase (SchemaReferenceRouter_getAnchor td target) = SchemaReferenceRouter_getAnchor td target"
    by (simp add: SchemaReferenceRouter_getAnchor_def toLowerCase_idem) (simp add: toLowerCase_def)
next
  fix c
  assume c: "c \<in> set (SchemaReferenceRouter_getAnchor td target)"
  then obtain url where "c \<in> set (toLowerCase (replaceAllBy match_separator url))"
    by (auto simp: SchemaReferenceRouter_getAnchor_def split: if_splits)
  then obtain x where x: "x \<in> set (replaceAllBy match_separator url)" and cx: "c = toLowerCase_char x"
    by (auto simp: toLowerCase_def)
  from x have "x \<notin> set ''./#''"
    by (rule replaceAllBy_separator)
  with cx show "c \<notin> set ''./#''"
    using toLowerCase_char_separator by blast
  from cx show "c \<notin> set ''ABCDEFGHIJKLMNOPQRSTUVWXYZ''"
    using toLowerCase_char_not_upper by blast
qed

theorem getAnchor_policy_witness:
  "kindOf bareProperty Property \<and> \<not> hasComment exampleTypedoc bareProperty
   \<and> SchemaReferenceRouter_getAnchor exampleTypedoc (DeclarationTarget bareProperty) = ''''
   \<and> SchemaReferenceRouter_getAnchor exampleTypedoc (DeclarationTarget toolsDeclaration) = ''types-tool''
   \<and> toLowerCase ''types-tool'' = ''types-tool''
   \<and> set ''types-tool'' \<inter> (set ''./#'' \<union> set ''ABCDEFGHIJKLMNOPQRSTUVWXYZ'') = {}"
proof -
  have bare: "kindOf bareProperty Property \<and> \<not> hasComment exampleTypedoc bareProperty"
    by (simp add: kindOf_def bareProperty_def hasComment.simps exampleTypedoc_def)
  have tool: "SchemaReferenceRouter_getAnchor exampleTypedoc (DeclarationTarget toolsDeclaration) = ''types-tool''"
    by code_simp
  from bare tool
    getAnchor_policy [of bareProperty exampleTypedoc "DeclarationTarget toolsDeclaration"]
  show ?thesis
    by auto
qed

section \<open>Categories: properties\<close>

lemma join_Cons: "join sep (x # xs) = x @ concat (map (\<lambda>y. sep @ y) xs)"
  by (induction xs arbitrary: x) simp_all

text \<open>
  Claim C4, as amended. Without a comment, or without a category tag in the comment, the
  category is the empty string. With a category tag, the category is the texts of the
  parts of the first such tag joined by single spaces: the first text, then a space and
  the text for every further part. It is the plain concatenation of the texts when the
  tag has one part at most.
\<close>

theorem getReflectionCategory_joined:
  "(comment r = None \<longrightarrow> getReflectionCategory r = '''')
   \<and> (comment r = Some c \<and> getTag c ''@category'' = None \<longrightarrow> getReflectionCategory r = '''')
   \<and> (comment r = Some c \<and> getTag c ''@category'' = Some t \<longrightarrow>
        getReflectionCategory r =
          (case map partText (content t) of
             [] \<Rightarrow> ''''
           | x # xs \<Rightarrow> x @ concat (map (\<lambda>y. '' '' @ y) xs)))
   \<and> (comment r = Some c \<and> getTag c ''@category'' = Some t \<and> length (content t) \<le> 1 \<longrightarrow>
        getReflectionCategory r = concat (map partText (content t)))"
proof (intro conjI impI)
  assume "comment r = None"
  then show "getReflectionCategory r = ''''"
    by (simp add: getReflectionCategory_def)
next
  assume "comment r = Some c \<and> getTag c ''@category'' = None"
  then show "getReflectionCategory r = ''''"
    by (simp add: getReflectionCategory_def)
next
  assume "comment r = Some c \<and> getTag c ''@category'' = Some t"
  then show "getReflectionCategory r =
          (case map partText (content t) of
             [] \<Rightarrow> ''''
           | x # xs \<Rightarrow> x @ concat (map (\<lambda>y. '' '' @ y) xs))"
    by (cases "content t") (simp_all add: getReflectionCategory_def join_Cons comp_def del: join.simps(2,3))
next
  assume a: "comment r = Some c \<and> getTag c ''@category'' = Some t \<and> length (content t) \<le> 1"
  then have "content t = [] \<or> (\<exists>p. content t = [p])"
    by (cases "content t") auto
  with a show "getReflectionCategory r = concat (map partText (content t))"
    by (auto simp: getReflectionCategory_def)
qed

theorem getReflectionCategory_joined_witness:
  "getReflectionCategory untaggedDeclaration = ''''
   \<and> getReflectionCategory toolsDeclaration = ''Tools''
   \<and> getReflectionCategory twoPartDeclaration = ''Base Protocol''"
proof -
  note inst = getReflectionCategory_joined
  have "getReflectionCategory untaggedDeclaration = ''''"
    using inst [of untaggedDeclaration] by (simp add: untaggedDeclaration_def)
  moreover have "getReflectionCategory toolsDeclaration = ''Tools''"
    using inst [of toolsDeclaration "categoryComment [''Tools'']"
        "CommentTag ''@category'' [CommentDisplayPart ''text'' ''Tools'']"]
    by (simp add: toolsDeclaration_def categoryComment_def getTag_def)
  moreover have "getReflectionCategory twoPartDeclaration = ''Base Protocol''"
    using inst [of twoPartDeclaration "categoryComment [''Base'', ''Protocol'']"
        "CommentTag ''@category'' [CommentDisplayPart ''text'' ''Base'', CommentDisplayPart ''text'' ''Protocol'']"]
    by (simp add: twoPartDeclaration_def categoryComment_def getTag_def)
  ultimately show ?thesis
    by simp
qed

theorem getReflectionCategory_concat_counterexample:
  "getReflectionCategory twoPartDeclaration = ''Base Protocol''
   \<and> getReflectionCategory twoPartDeclaration \<noteq> ''Base'' @ ''Protocol''"
  by (simp add: getReflectionCategory_def twoPartDeclaration_def categoryComment_def getTag_def)

text \<open>
  Claim C5, as amended. The heading of the empty label is \<open>Common Types\<close>; a label
  that starts with one of the letters a to z is wrapped in backticks; any other label,
  also one that starts with a lower-case letter outside a to z, is emitted as it is.
\<close>

theorem renderCategory_heading:
  "renderCategory '''' = ''## Common Types'' @ [newline]
   \<and> (category \<noteq> [] \<and> hd category \<in> set ''abcdefghijklmnopqrstuvwxyz'' \<longrightarrow>
        renderCategory category = ''## `'' @ category @ ''`'' @ [newline])
   \<and> (category \<noteq> [] \<and> hd category \<notin> set ''abcdefghijklmnopqrstuvwxyz'' \<longrightarrow>
        renderCategory category = ''## '' @ category @ [newline])"
  by (cases category) (simp_all add: renderCategory_def startsLowerAZ_def)

theorem renderCategory_heading_witness:
  "renderCategory '''' = ''## Common Types'' @ [newline]
   \<and> renderCategory ''prompts'' = ''## `prompts`'' @ [newline]
   \<and> renderCategory ''Tools'' = ''## Tools'' @ [newline]
   \<and> renderCategory ''2024 notes'' = ''## 2024 notes'' @ [newline]"
  using renderCategory_heading [of "''prompts''"] renderCategory_heading [of "''Tools''"]
    renderCategory_heading [of "''2024 notes''"]
  by simp

text \<open>
  The letter U+00E9 is lower-case, the lower-case form of U+00C9, and a label that starts
  with it is not wrapped.
\<close>

theorem renderCategory_heading_counterexample:
  "toLowerCase_char (CHR 0xC9) = CHR 0xE9
   \<and> toLowerCase_char (CHR 0xE9) = CHR 0xE9
   \<and> hd accentedLabel = CHR 0xE9
   \<and> renderCategory accentedLabel = ''## '' @ accentedLabel @ [newline]
   \<and> renderCategory accentedLabel \<noteq> ''## `'' @ accentedLabel @ ''`'' @ [newline]"
  by code_simp

section \<open>Rendering one declaration: properties\<close>

text \<open>
  Claim C6, as amended. The members of a declaration are its direct children that have
  documentation, in their order; the content handed to the renderer is the declaration's
  own content followed by the array of the member renderings of exactly these children,
  so a child without documentation has no member rendering. Where the host renders a
  fragment by concatenating its children, the content is the own content followed by the
  member renderings. The own content is what the host makes of the whole declaration,
  and nothing is said of the names it holds.
\<close>

theorem renderReflection_members:
  "members td r = filter (hasComment td) (case children r of None \<Rightarrow> [] | Some cs \<Rightarrow> cs)
   \<and> (children r = Some cs \<longrightarrow>
        (\<forall>c. c \<in> set (members td r) \<longleftrightarrow> c \<in> set cs \<and> hasComment td c))
   \<and> contentElements td ctx r =
        [case reflectionPreview ctx r of
           Some codeBlock \<Rightarrow> Children [Element codeBlock, Element (commentSummary ctx r)]
         | None \<Rightarrow> Element (memberDeclaration ctx r),
         Children (map (\<lambda>m. Element (member ctx m)) (members td r))]
   \<and> renderReflection td r ctx =
        ''### `'' @ Reflection_getFriendlyFullName td r @ ''`'' @ [newline, newline] @
        sanitize (JSX_renderElement td (Children [Children (contentElements td ctx r)])) @ [newline]
   \<and> (JSX_renderElement td' = renderChildren \<longrightarrow>
        renderJsxElements td' (contentElements td' ctx' r) =
          (case reflectionPreview ctx' r of
             Some codeBlock \<Rightarrow> codeBlock @ commentSummary ctx' r
           | None \<Rightarrow> memberDeclaration ctx' r) @
          concat (map (member ctx') (members td' r)))"
proof (intro conjI impI allI)
  show "members td r = filter (hasComment td) (case children r of None \<Rightarrow> [] | Some cs \<Rightarrow> cs)"
    by (simp add: members_def split: option.splits)
  show "contentElements td ctx r =
        [case reflectionPreview ctx r of
           Some codeBlock \<Rightarrow> Children [Element codeBlock, Element (commentSummary ctx r)]
         | None \<Rightarrow> Element (memberDeclaration ctx r),
         Children (map (\<lambda>m. Element (member ctx m)) (members td r))]"
    by (simp add: contentElements_def)
  show "renderReflection td r ctx =
        ''### `'' @ Reflection_getFriendlyFullName td r @ ''`'' @ [newline, newline] @
        sanitize (JSX_renderElement td (Children [Children (contentElements td ctx r)])) @ [newline]"
    by (simp add: renderReflection_def renderJsxElements_def)
next
  fix c
  assume "children r = Some cs"
  then show "c \<in> set (members td r) \<longleftrightarrow> c \<in> set cs \<and> hasComment td c"
    by (simp add: members_def)
next
  assume "JSX_renderElement td' = renderChildren"
  then show "renderJsxElements td' (contentElements td' ctx' r) =
          (case reflectionPreview ctx' r of
             Some codeBlock \<Rightarrow> codeBlock @ commentSummary ctx' r
           | None \<Rightarrow> memberDeclaration ctx' r) @
          concat (map (member ctx') (members td' r))"
    by (simp add: renderJsxElements_def contentElements_def comp_def split: option.splits)
qed

theorem renderReflection_members_witness:
  "members exampleTypedoc toolsDeclaration = [leafProperty]
   \<and> members exampleTypedoc untaggedDeclaration = []
   \<and> bareProperty \<notin> set (members exampleTypedoc untaggedDeclaration)
   \<and> renderJsxElements exampleTypedoc (contentElements exampleTypedoc exampleContext toolsDeclaration) =
        ''<pre>interface Tool</pre><p>About Tool</p><h4>leaf</h4>''
   \<and> renderJsxElements exampleTypedoc (contentElements exampleTypedoc exampleContext untaggedDeclaration) =
        ''<pre>interface Cursor</pre><p>About Cursor</p>''"
proof -
  have leaf: "hasComment exampleTypedoc leafProperty"
    by (simp add: hasComment.simps exampleTypedoc_def leafProperty_def)
  have bare: "\<not> hasComment exampleTypedoc bareProperty"
    by (simp add: hasComment.simps exampleTypedoc_def bareProperty_def)
  have host: "JSX_renderElement exampleTypedoc = renderChildren"
    by (simp add: exampleTypedoc_def)
  have tool: "children toolsDeclaration = Some [leafProperty]"
    "reflectionPreview exampleContext toolsDeclaration = Some ''<pre>interface Tool</pre>''"
    "commentSummary exampleContext toolsDeclaration = ''<p>About Tool</p>''"
    by (simp_all add: toolsDeclaration_def exampleContext_def)
  have cursor: "children untaggedDeclaration = Some [bareProperty]"
    "reflectionPreview exampleContext untaggedDeclaration = Some ''<pre>interface Cursor</pre>''"
    "commentSummary exampleContext untaggedDeclaration = ''<p>About Cursor</p>''"
    by (simp_all add: untaggedDeclaration_def exampleContext_def)
  have m: "member exampleContext leafProperty = ''<h4>leaf</h4>''"
    by (simp add: exampleContext_def leafProperty_def)
  note tool_inst = renderReflection_members [of exampleTypedoc toolsDeclaration "[leafProperty]"
      exampleContext exampleTypedoc exampleContext]
  have tool_members: "members exampleTypedoc toolsDeclaration = [leafProperty]"
    using tool_inst [THEN conjunct1] tool(1) leaf by simp
  have 1: "members exampleTypedoc toolsDeclaration = [leafProperty]
    \<and> renderJsxElements exampleTypedoc (contentElements exampleTypedoc exampleContext toolsDeclaration) =
        ''<pre>interface Tool</pre><p>About Tool</p><h4>leaf</h4>''"
    using tool_inst [THEN conjunct2, THEN conjunct2, THEN conjunct2, THEN conjunct2]
      host tool(2,3) m tool_members
    by simp
  note cursor_inst = renderReflection_members [of exampleTypedoc untaggedDeclaration
      "[bareProperty]" exampleContext exampleTypedoc exampleContext]
  have cursor_members: "members exampleTypedoc untaggedDeclaration = []"
    using cursor_inst [THEN conjunct1] cursor(1) bare by simp
  have 2: "members exampleTypedoc untaggedDeclaration = []
    \<and> renderJsxElements exampleTypedoc (contentElements exampleTypedoc exampleContext untaggedDeclaration) =
        ''<pre>interface Cursor</pre><p>About Cursor</p>''"
    using cursor_inst [THEN conjunct2, THEN conjunct2, THEN conjunct2, THEN conjunct2]
      host cursor(2,3) cursor_members
    by simp
  from 1 2 show ?thesis
    by simp
qed

text \<open>
  A child without documentation can still be named in the fragment: the preview of the
  declaration is made by the host from the whole declaration.
\<close>

theorem renderReflection_members_counterexample:
  "children untaggedDeclaration = Some [bareProperty]
   \<and> \<not> hasComment exampleTypedoc bareProperty
   \<and> members exampleTypedoc untaggedDeclaration = []
   \<and> renderReflection exampleTypedoc untaggedDeclaration previewContext =
       ''### `Cursor`'' @ [newline, newline] @
       ''<pre>interface Cursor: bare;</pre><p>About Cursor</p>'' @ [newline]
   \<and> sublist (name bareProperty) (renderReflection exampleTypedoc untaggedDeclaration previewContext)"
proof -
  have "\<not> hasComment exampleTypedoc bareProperty"
    by (simp add: hasComment.simps exampleTypedoc_def bareProperty_def)
  moreover have "children untaggedDeclaration = Some [bareProperty]"
    by (simp add: untaggedDeclaration_def)
  ultimately have none: "members exampleTypedoc untaggedDeclaration = []"
    by (simp add: members_def)
  have content: "renderJsxElements exampleTypedoc
      (contentElements exampleTypedoc previewContext untaggedDeclaration) =
      ''<pre>interface Cursor: bare;</pre><p>About Cursor</p>''"
    by code_simp
  have clean: "sanitize ''<pre>interface Cursor: bare;</pre><p>About Cursor</p>'' =
      ''<pre>interface Cursor: bare;</pre><p>About Cursor</p>''"
    by code_simp
  have fragment: "renderReflection exampleTypedoc untaggedDeclaration previewContext =
       ''### `Cursor`'' @ [newline, newline] @
       ''<pre>interface Cursor: bare;</pre><p>About Cursor</p>'' @ [newline]"
  proof -
    have "Reflection_getFriendlyFullName exampleTypedoc untaggedDeclaration = ''Cursor''"
      by (simp add: exampleTypedoc_def untaggedDeclaration_def)
    then show ?thesis
      by (simp add: renderReflection_def content clean)
  qed
  have "sublist ''bare'' (''### `Cursor`'' @ [newline, newline] @
       ''<pre>interface Cursor: bare;</pre><p>About Cursor</p>'' @ [newline])"
    by code_simp
  then have "sublist (name bareProperty)
      (renderReflection exampleTypedoc untaggedDeclaration previewContext)"
    by (simp only: fragment) (simp add: bareProperty_def)
  with \<open>\<not> hasComment exampleTypedoc bareProperty\<close>
    \<open>children untaggedDeclaration = Some [bareProperty]\<close> none fragment
  show ?thesis
    by (simp only: simp_thms)
qed

text \<open>
  Claim C10. A rendered fragment is the heading line, built from the friendly full name
  as the host gives it, an empty line, the sanitized content and a newline: the rewrites
  reach the content only. When the name holds no newline, the first line of the fragment
  is the heading with the name unchanged, whatever characters the name holds.
\<close>

theorem renderReflection_heading_line:
  "renderReflection td r ctx =
     ''### `'' @ Reflection_getFriendlyFullName td r @ ''`'' @ [newline, newline] @
     sanitize (renderJsxElements td (contentElements td ctx r)) @ [newline]
   \<and> (newline \<notin> set (Reflection_getFriendlyFullName td r) \<longrightarrow>
        takeWhile (\<lambda>c. c \<noteq> newline) (renderReflection td r ctx) =
          ''### `'' @ Reflection_getFriendlyFullName td r @ ''`'')"
proof (intro conjI impI)
  show eq: "renderReflection td r ctx =
     ''### `'' @ Reflection_getFriendlyFullName td r @ ''`'' @ [newline, newline] @
     sanitize (renderJsxElements td (contentElements td ctx r)) @ [newline]"
    by (simp add: renderReflection_def)
  assume "newline \<notin> set (Reflection_getFriendlyFullName td r)"
  then have "takeWhile (\<lambda>c. c \<noteq> newline)
      ((''### `'' @ Reflection_getFriendlyFullName td r @ ''`'') @ newline # rest) =
      ''### `'' @ Reflection_getFriendlyFullName td r @ ''`''" for rest
    by (subst takeWhile_append2) auto
  then show "takeWhile (\<lambda>c. c \<noteq> newline) (renderReflection td r ctx) =
          ''### `'' @ Reflection_getFriendlyFullName td r @ ''`''"
    unfolding eq by simp
qed

theorem renderReflection_heading_line_witness:
  \<open>newline \<notin> set (Reflection_getFriendlyFullName exampleTypedoc bracketDeclaration)
   \<and> takeWhile (\<lambda>c. c \<noteq> newline) (renderReflection exampleTypedoc bracketDeclaration exampleContext) =
        ''### `Row_[{<h1>`''
   \<and> renderReflection exampleTypedoc bracketDeclaration exampleContext =
        ''### `Row_[{<h1>`'' @ [newline, newline] @
        ''<code>Row&#x5F;&#x5B;&#x7B;<div data-typedoc-h="1"></code>'' @ [newline]\<close>
proof -
  have name: "Reflection_getFriendlyFullName exampleTypedoc bracketDeclaration = ''Row_[{<h1>''"
    by (simp add: exampleTypedoc_def bracketDeclaration_def)
  have body: \<open>sanitize (renderJsxElements exampleTypedoc
      (contentElements exampleTypedoc exampleContext bracketDeclaration)) =
      ''<code>Row&#x5F;&#x5B;&#x7B;<div data-typedoc-h="1"></code>''\<close>
    by code_simp
  from renderReflection_heading_line [of exampleTypedoc bracketDeclaration exampleContext]
  show ?thesis
    unfolding name body by simp
qed

section \<open>Assembling the page: properties\<close>

lemma Map_push_keys: "map fst (Map_push m k x) = map fst m"
  by (induction m) auto

lemma Map_push_lookup:
  "map_of (Map_push m k x) k' =
     (if k' = k then map_option (\<lambda>v. v @ [x]) (map_of m k) else map_of m k')"
  by (induction m) auto

lemma Map_set_fresh: "k \<notin> set (map fst m) \<Longrightarrow> Map_set m k v = m @ [(k, v)]"
  by (induction m) auto

lemma fragmentsOf_Cons:
  "fragmentsOf td theme ((event, r) # rest) k =
     (if getReflectionCategory r = k
      then renderReflection td r (theme event) # fragmentsOf td theme rest k
      else fragmentsOf td theme rest k)"
  by (simp add: fragmentsOf_def)

lemma collectOutputs_keys:
  "set (map fst (collectOutputs td theme ds out)) = set (map fst out) \<union> set (categoriesOf ds)"
proof (induction ds arbitrary: out)
  case Nil
  then show ?case by (simp add: categoriesOf_def)
next
  case (Cons d ds)
  obtain event r where d: "d = (event, r)"
    by (cases d)
  define out2 where "out2 =
    Map_push (if \<not> Map_has out (getReflectionCategory r)
              then Map_set out (getReflectionCategory r) [renderCategory (getReflectionCategory r)]
              else out)
      (getReflectionCategory r) (renderReflection td r (theme event))"
  have "set (map fst out2) = insert (getReflectionCategory r) (set (map fst out))"
    by (auto simp: out2_def Map_push_keys Map_has_def Map_set_fresh)
  moreover have "set (map fst (collectOutputs td theme ds out2)) =
      set (map fst out2) \<union> set (categoriesOf ds)"
    by (rule Cons.IH)
  moreover have "collectOutputs td theme (d # ds) out = collectOutputs td theme ds out2"
    by (simp add: d Let_def out2_def)
  ultimately show ?case
    by (simp add: d categoriesOf_def)
qed

lemma collectOutputs_distinct:
  "distinct (map fst out) \<Longrightarrow> distinct (map fst (collectOutputs td theme ds out))"
proof (induction ds arbitrary: out)
  case Nil
  then show ?case by simp
next
  case (Cons d ds)
  obtain event r where d: "d = (event, r)"
    by (cases d)
  define out2 where "out2 =
    Map_push (if \<not> Map_has out (getReflectionCategory r)
              then Map_set out (getReflectionCategory r) [renderCategory (getReflectionCategory r)]
              else out)
      (getReflectionCategory r) (renderReflection td r (theme event))"
  have "distinct (map fst out2)"
    using Cons.prems by (simp add: out2_def Map_push_keys Map_has_def Map_set_fresh)
  then have "distinct (map fst (collectOutputs td theme ds out2))"
    by (rule Cons.IH)
  then show ?case
    by (simp add: d Let_def out2_def)
qed

lemma collectOutputs_lookup:
  "map_of (collectOutputs td theme ds out) k =
     (case map_of out k of
        Some v \<Rightarrow> Some (v @ fragmentsOf td theme ds k)
      | None \<Rightarrow> if k \<in> set (categoriesOf ds) then Some (bucketOf td theme ds k) else None)"
proof (induction ds arbitrary: out)
  case Nil
  then show ?case
    by (simp add: fragmentsOf_def categoriesOf_def split: option.splits)
next
  case (Cons d ds)
  obtain event r where d: "d = (event, r)"
    by (cases d)
  define category where "category = getReflectionCategory r"
  define out1 where "out1 =
    (if \<not> Map_has out category then Map_set out category [renderCategory category] else out)"
  define out2 where "out2 = Map_push out1 category (renderReflection td r (theme event))"
  have step: "collectOutputs td theme (d # ds) out = collectOutputs td theme ds out2"
    by (simp add: d Let_def category_def out1_def out2_def)
  have out1: "map_of out1 x =
      (if x = category \<and> map_of out x = None then Some [renderCategory category] else map_of out x)"
    for x
    by (auto simp: out1_def Map_has_def Map_set_fresh map_of_eq_None_iff [symmetric]
          map_add_def simp del: map_of_eq_None_iff split: option.splits)
  have out2: "map_of out2 k =
      (if k = category
       then Some ((case map_of out k of None \<Rightarrow> [renderCategory category] | Some v \<Rightarrow> v) @
                   [renderReflection td r (theme event)])
       else map_of out k)"
    by (auto simp: out2_def Map_push_lookup out1 split: option.splits)
  show ?case
    unfolding step Cons.IH out2
    by (auto simp: d fragmentsOf_Cons bucketOf_def categoriesOf_def category_def
        split: option.splits)
qed

lemma sortedCategories_collectOutputs:
  "sortedCategories (collectOutputs td theme ds []) = sort (remdups (categoriesOf ds))"
proof (rule sorted_distinct_set_unique)
  show "sorted (sortedCategories (collectOutputs td theme ds []))"
    by (simp add: sortedCategories_def)
  show "distinct (sortedCategories (collectOutputs td theme ds []))"
    using collectOutputs_distinct [of "[]" td theme ds]
    by (simp add: sortedCategories_def Map_keys_def)
  show "set (sortedCategories (collectOutputs td theme ds [])) = set (sort (remdups (categoriesOf ds)))"
    using collectOutputs_keys [of td theme ds "[]"]
    by (simp add: sortedCategories_def Map_keys_def)
qed simp_all

lemma bucketsInOrder_collectOutputs:
  "bucketsInOrder (collectOutputs td theme ds []) =
     map (bucketOf td theme ds) (sort (remdups (categoriesOf ds)))"
  unfolding bucketsInOrder_def sortedCategories_collectOutputs
  by (rule map_cong) (simp_all add: Map_get_def collectOutputs_lookup)

lemma assemble_collectOutputs:
  "assemble (collectOutputs td theme ds []) = documentBody td theme ds"
  by (simp add: assemble_def documentBody_def bucketsInOrder_collectOutputs)

lemma mset_insertBy: "mset (insertBy cmp x xs) = add_mset x (mset xs)"
  by (induction xs) simp_all

lemma mset_sortBy: "mset (sortBy cmp xs) = mset xs"
  by (induction xs) (simp_all add: mset_insertBy)


text \<open>
  Claim C9. The chunks written are the three lines of the front matter with the title
  \<open>Schema Reference\<close> and the empty line after them, the empty anchor element with an
  empty line, and the body. The body is the concatenation, joined by single newlines, of
  the buckets in the order of their labels, each bucket being its heading followed by
  the rendered fragments of the declarations of that category; the declarations are the
  pages of the project that are declarations, one for each such page.
\<close>

theorem load_output:
  \<open>stdout (load td proj) =
     ''---'' @ [newline] @ ''title: Schema Reference'' @ [newline] @ ''---'' @ [newline]
     @ [newline] @ ''<div id="schema-reference" />'' @ [newline, newline]
     @ documentBody td (DefaultTheme_getRenderContext td (SchemaReferenceRouter td))
         (declarationEvents td (buildPageEvents td proj (SchemaReferenceRouter td)))
   \<and> mset (declarationEvents td events) = mset (List.map_filter isDeclarationReflectionEvent events)
   \<and> documentBody td theme decls =
       join [newline]
         (concat (map (\<lambda>category. renderCategory category #
                          map (\<lambda>(event, r). renderReflection td r (theme event))
                            (filter (\<lambda>(event, r). getReflectionCategory r = category) decls))
                      (sort (remdups (map (\<lambda>(event, r). getReflectionCategory r) decls)))))\<close>
proof (intro conjI)
  show \<open>stdout (load td proj) =
     ''---'' @ [newline] @ ''title: Schema Reference'' @ [newline] @ ''---'' @ [newline]
     @ [newline] @ ''<div id="schema-reference" />'' @ [newline, newline]
     @ documentBody td (DefaultTheme_getRenderContext td (SchemaReferenceRouter td))
         (declarationEvents td (buildPageEvents td proj (SchemaReferenceRouter td)))\<close>
    by (simp add: stdout_def load_def Let_def renderPageEvents_def assemble_collectOutputs)
  show "mset (declarationEvents td events) = mset (List.map_filter isDeclarationReflectionEvent events)"
    by (simp add: declarationEvents_def mset_sortBy)
  show "documentBody td theme decls =
       join [newline]
         (concat (map (\<lambda>category. renderCategory category #
                          map (\<lambda>(event, r). renderReflection td r (theme event))
                            (filter (\<lambda>(event, r). getReflectionCategory r = category) decls))
                      (sort (remdups (map (\<lambda>(event, r). getReflectionCategory r) decls)))))"
    by (simp add: documentBody_def bucketOf_def fragmentsOf_def categoriesOf_def cong: map_cong)
qed

theorem load_output_witness:
  \<open>stdout (load exampleTypedoc exampleProject) =
     ''---\<newline>title: Schema Reference\<newline>---\<newline>\<newline><div id="schema-reference" />\<newline>\<newline>'' @
     ''## Common Types\<newline>\<newline>'' @
     ''### `Cursor`\<newline>\<newline><pre>interface Cursor</pre><p>About Cursor</p>\<newline>\<newline>'' @
     ''## Tools\<newline>\<newline>'' @
     ''### `Tool`\<newline>\<newline><pre>interface Tool</pre><p>About Tool</p><div data-typedoc-h="4">leaf</div>\<newline>\<newline>'' @
     ''## `prompts`\<newline>\<newline>'' @
     ''### `Prompt_Name`\<newline>\<newline><code>Prompt&#x5F;Name</code>\<newline>''\<close>
proof -
  have body: \<open>documentBody exampleTypedoc
      (DefaultTheme_getRenderContext exampleTypedoc (SchemaReferenceRouter exampleTypedoc))
      (declarationEvents exampleTypedoc
        (buildPageEvents exampleTypedoc exampleProject (SchemaReferenceRouter exampleTypedoc))) =
     ''## Common Types\<newline>\<newline>'' @
     ''### `Cursor`\<newline>\<newline><pre>interface Cursor</pre><p>About Cursor</p>\<newline>\<newline>'' @
     ''## Tools\<newline>\<newline>'' @
     ''### `Tool`\<newline>\<newline><pre>interface Tool</pre><p>About Tool</p><div data-typedoc-h="4">leaf</div>\<newline>\<newline>'' @
     ''## `prompts`\<newline>\<newline>'' @
     ''### `Prompt_Name`\<newline>\<newline><code>Prompt&#x5F;Name</code>\<newline>''\<close>
    by code_simp
  from load_output [of exampleTypedoc exampleProject, THEN conjunct1]
  show ?thesis
    unfolding body by simp
qed




section \<open>The rewrites: which characters remain\<close>

lemma replaceAllBy_set:
  assumes "\<And>s n rep. m s = Some (n, rep) \<Longrightarrow> set rep \<subseteq> A"
  shows "set (replaceAllBy m s) \<subseteq> set s \<union> A"
  using assms
proof (induction m s rule: replaceAllBy.induct)
  case (1 m)
  then show ?case by simp
next
  case (2 m c s)
  show ?case
  proof (cases "m (c # s)")
    case None
    have "set (replaceAllBy m s) \<subseteq> set s \<union> A"
      using "2.IH"(1) [OF None] "2.prems" by blast
    with None show ?thesis by auto
  next
    case (Some x)
    obtain n rep where x: "x = (n, rep)"
      by (cases x)
    have "set (replaceAllBy m (drop (n - 1) s)) \<subseteq> set (drop (n - 1) s) \<union> A"
      using "2.IH"(2) [OF Some x [symmetric]] "2.prems" by blast
    moreover have "set (drop (n - 1) s) \<subseteq> set s"
      by (rule set_drop_subset)
    moreover have "set rep \<subseteq> A"
      using "2.prems" Some x by blast
    ultimately show ?thesis
      using Some x by auto
  qed
qed

lemma replaceAllBy_removes:
  assumes "\<And>t. m (c # t) \<noteq> None"
    and "\<And>s n rep. m s = Some (n, rep) \<Longrightarrow> c \<notin> set rep"
  shows "c \<notin> set (replaceAllBy m s)"
  using assms
proof (induction m s rule: replaceAllBy.induct)
  case (1 m)
  then show ?case by simp
next
  case (2 m x s)
  show ?case
  proof (cases "m (x # s)")
    case None
    with "2.prems"(1) [of s] have "x \<noteq> c"
      by auto
    moreover have "c \<notin> set (replaceAllBy m s)"
      using "2.IH"(1) [OF None] "2.prems" by blast
    ultimately show ?thesis
      using None by auto
  next
    case (Some y)
    obtain n rep where y: "y = (n, rep)"
      by (cases y)
    have "c \<notin> set (replaceAllBy m (drop (n - 1) s))"
      using "2.IH"(2) [OF Some y [symmetric]] "2.prems" by blast
    moreover have "c \<notin> set rep"
      using "2.prems"(2) Some y by blast
    ultimately show ?thesis
      using Some y by auto
  qed
qed

lemma replaceAllBy_unchanged:
  assumes "\<And>t. m t \<noteq> None \<Longrightarrow> t \<noteq> [] \<and> hd t \<in> A"
    and "set s \<inter> A = {}"
  shows "replaceAllBy m s = s"
  using assms
proof (induction s)
  case Nil
  then show ?case by simp
next
  case (Cons x s)
  have "m (x # s) = None"
    using Cons.prems(1) [of "x # s"] Cons.prems(2) by auto
  moreover have "replaceAllBy m s = s"
    using Cons by auto
  ultimately show ?case
    by simp
qed

lemma match_string_Some:
  "match_string pat rep s = Some (n, r) \<longleftrightarrow> prefix pat s \<and> n = length pat \<and> r = rep"
  by (auto simp: match_string_def)

lemma replace_string_set: "set (replaceAllBy (match_string pat rep) s) \<subseteq> set s \<union> set rep"
  by (rule replaceAllBy_set) (simp add: match_string_Some)

lemma replace_char_removes: "c \<notin> set rep \<Longrightarrow> c \<notin> set (replaceAllBy (match_string [c] rep) s)"
  by (rule replaceAllBy_removes) (auto simp: match_string_def split: if_splits)

lemma replace_string_unchanged:
  "pat \<noteq> [] \<Longrightarrow> hd pat \<notin> set s \<Longrightarrow> replaceAllBy (match_string pat rep) s = s"
  by (rule replaceAllBy_unchanged [where A = "{hd pat}"])
     (auto simp: match_string_def prefix_def split: if_splits)

lemma replaceAllBy_avoids:
  assumes "\<And>s n rep. m s = Some (n, rep) \<Longrightarrow> set rep \<inter> X = {}"
    and "set s \<inter> X = {}"
  shows "set (replaceAllBy m s) \<inter> X = {}"
proof -
  have "set (replaceAllBy m s) \<subseteq> set s \<union> (- X)"
    by (rule replaceAllBy_set) (use assms(1) in auto)
  with assms(2) show ?thesis
    by auto
qed

text \<open>The four characters that the escapes replace.\<close>

lemma match_hOpen_Some:
  "match_hOpen s = Some (n, rep) \<Longrightarrow> \<exists>d \<in> set ''123456''. n = 3 \<and> rep = divTag d"
  by (auto simp: match_hOpen_def split: list.splits if_splits)

lemma match_hClose_Some: "match_hClose s = Some (n, rep) \<Longrightarrow> n = 5 \<and> rep = ''</div>''"
  by (auto simp: match_hClose_def split: list.splits if_splits)

lemma match_newlines_Some: "match_newlines s = Some (n, rep) \<Longrightarrow> rep = '' <''"
  by (auto simp: match_newlines_def Let_def split: if_splits)

lemma match_TJS_Some: "match_TJS s = Some (n, rep) \<Longrightarrow> rep = ''''"
  by (auto simp: match_TJS_def Let_def split: if_splits)

lemma convertHeadings_avoids:
  assumes "set s \<inter> {nbsp, CHR ''['', CHR ''_'', CHR ''{''} = {}"
  shows "set (convertHeadings s) \<inter> {nbsp, CHR ''['', CHR ''_'', CHR ''{''} = {}"
  unfolding convertHeadings_def
proof (intro replaceAllBy_avoids)
  show "set s \<inter> {nbsp, CHR ''['', CHR ''_'', CHR ''{''} = {}"
    by (rule assms)
  show "set rep \<inter> {nbsp, CHR ''['', CHR ''_'', CHR ''{''} = {}"
    if "match_hOpen t = Some (n, rep)" for t n rep
    using match_hOpen_Some [OF that] by (auto simp: divTag_def)
  show "set rep \<inter> {nbsp, CHR ''['', CHR ''_'', CHR ''{''} = {}"
    if "match_hClose t = Some (n, rep)" for t n rep
    using match_hClose_Some [OF that] by auto
qed

lemma joinTagLines_avoids:
  assumes "set s \<inter> {nbsp, CHR ''['', CHR ''_'', CHR ''{''} \<subseteq> Y"
  shows "set (joinTagLines s) \<inter> {nbsp, CHR ''['', CHR ''_'', CHR ''{''} \<subseteq> Y"
proof -
  have "set (joinTagLines s) \<subseteq> set s \<union> set '' <''"
    unfolding joinTagLines_def
    by (rule replaceAllBy_set) (auto dest: match_newlines_Some)
  with assms show ?thesis
    by auto
qed

lemma removeTJS_set: "set (removeTJS s) \<subseteq> set s"
proof -
  have "set (removeTJS s) \<subseteq> set s \<union> {}"
    unfolding removeTJS_def
    by (rule replaceAllBy_set) (auto dest: match_TJS_Some)
  then show ?thesis
    by simp
qed

lemma encodeNbsp_removes: "nbsp \<notin> set (encodeNbsp s)"
  unfolding encodeNbsp_def by (rule replace_char_removes) simp

lemma escapeMarkdown_set:
  "set (escapeMarkdown s) \<subseteq> set s \<union> set ''&#x5B;&#x5F;&#x7B;''"
proof -
  define X where "X = set ''&#x5B;&#x5F;&#x7B;''"
  let ?a = "replaceAllBy (match_string ''['' ''&#x5B;'') s"
  let ?b = "replaceAllBy (match_string ''_'' ''&#x5F;'') ?a"
  let ?c = "replaceAllBy (match_string ''{'' ''&#x7B;'') ?b"
  have "set ''&#x5B;'' \<subseteq> X" and "set ''&#x5F;'' \<subseteq> X" and "set ''&#x7B;'' \<subseteq> X"
    by (simp_all add: X_def)
  moreover have "set ?a \<subseteq> set s \<union> set ''&#x5B;''"
    and "set ?b \<subseteq> set ?a \<union> set ''&#x5F;''"
    and "set ?c \<subseteq> set ?b \<union> set ''&#x7B;''"
    by (rule replace_string_set)+
  ultimately have "set ?c \<subseteq> set s \<union> X"
    by blast
  then show ?thesis
    by (simp only: escapeMarkdown_def X_def)
qed

lemma escapeMarkdown_removes:
  "set (escapeMarkdown s) \<inter> {CHR ''['', CHR ''_'', CHR ''{''} = {}"
proof -
  let ?a = "replaceAllBy (match_string ''['' ''&#x5B;'') s"
  let ?b = "replaceAllBy (match_string ''_'' ''&#x5F;'') ?a"
  let ?c = "replaceAllBy (match_string ''{'' ''&#x7B;'') ?b"
  have a: "CHR ''['' \<notin> set ?a"
    by (rule replace_char_removes) simp
  have "set ?b \<subseteq> set ?a \<union> set ''&#x5F;''"
    by (rule replace_string_set)
  with a have b1: "CHR ''['' \<notin> set ?b"
    by auto
  have b2: "CHR ''_'' \<notin> set ?b"
    by (rule replace_char_removes) simp
  have "set ?c \<subseteq> set ?b \<union> set ''&#x7B;''"
    by (rule replace_string_set)
  with b1 b2 have "CHR ''['' \<notin> set ?c" and "CHR ''_'' \<notin> set ?c"
    by auto
  moreover have "CHR ''{'' \<notin> set ?c"
    by (rule replace_char_removes) simp
  ultimately show ?thesis
    by (simp add: escapeMarkdown_def)
qed

lemma sanitize_avoids: "set (sanitize s) \<inter> {nbsp, CHR ''['', CHR ''_'', CHR ''{''} = {}"
proof -
  let ?e = "encodeNbsp (reduceIndent (convertHeadings s))"
  have "nbsp \<notin> set ?e"
    by (rule encodeNbsp_removes)
  then have "set (joinTagLines ?e) \<inter> {nbsp, CHR ''['', CHR ''_'', CHR ''{''}
      \<subseteq> {CHR ''['', CHR ''_'', CHR ''{''}"
    by (intro joinTagLines_avoids) auto
  then have "nbsp \<notin> set (joinTagLines ?e)"
    by auto
  then have "nbsp \<notin> set (escapeMarkdown (joinTagLines ?e))"
    using escapeMarkdown_set [of "joinTagLines ?e"] by auto
  with escapeMarkdown_removes [of "joinTagLines ?e"]
  have "set (sanitizeEscaped s) \<inter> {nbsp, CHR ''['', CHR ''_'', CHR ''{''} = {}"
    by (simp add: sanitizeEscaped_def)
  with removeTJS_set [of "sanitizeEscaped s"] show ?thesis
    by (auto simp: sanitize_def)
qed

lemma reduceIndent_unchanged: "nbsp \<notin> set s \<Longrightarrow> reduceIndent s = s"
  unfolding reduceIndent_def by (rule replace_string_unchanged) simp_all

lemma encodeNbsp_unchanged: "nbsp \<notin> set s \<Longrightarrow> encodeNbsp s = s"
  unfolding encodeNbsp_def by (rule replace_string_unchanged) simp_all

lemma escapeMarkdown_unchanged:
  "set s \<inter> {CHR ''['', CHR ''_'', CHR ''{''} = {} \<Longrightarrow> escapeMarkdown s = s"
  by (simp add: escapeMarkdown_def replace_string_unchanged)

section \<open>The rewrites: heading tags\<close>

text \<open>
  Where no replacement starts with a character of \<open>q\<close>, the rewritten string starts
  with \<open>q\<close> only if the string did.
\<close>

lemma replaceAllBy_prefix:
  assumes "\<And>s n rep. m s = Some (n, rep) \<Longrightarrow> rep \<noteq> [] \<and> hd rep \<notin> A"
    and "set q \<subseteq> A"
    and "prefix q (replaceAllBy m t)"
  shows "prefix q t"
  using assms(2,3)
proof (induction q arbitrary: t)
  case Nil
  then show ?case by simp
next
  case (Cons x q)
  show ?case
  proof (cases t)
    case Nil
    with Cons.prems show ?thesis by simp
  next
    case (Cons c t')
    show ?thesis
    proof (cases "m (c # t')")
      case None
      with Cons.prems \<open>t = c # t'\<close> have "x = c" and "prefix q (replaceAllBy m t')"
        by simp_all
      moreover from this Cons.IH Cons.prems(1) have "prefix q t'"
        by simp
      ultimately show ?thesis
        using \<open>t = c # t'\<close> by simp
    next
      case (Some y)
      obtain n rep where y: "y = (n, rep)"
        by (cases y)
      with Some assms(1) have "rep \<noteq> []" and "hd rep \<notin> A"
        by blast+
      moreover from Some y Cons.prems(2) \<open>t = c # t'\<close>
      have "prefix (x # q) (rep @ replaceAllBy m (drop (n - 1) t'))"
        by simp
      ultimately have "hd rep = x"
        by (cases rep) simp_all
      with \<open>hd rep \<notin> A\<close> Cons.prems(1) show ?thesis
        by simp
    qed
  qed
qed

text \<open>
  A pattern \<open>a # q\<close> does not occur in the rewritten string when: the strings
  considered (\<open>ok\<close>) are closed under dropping characters, the pattern starts such a
  string only where the matcher matches, no replacement starts with a character of
  \<open>q\<close>, and a replacement in front of a text without the pattern does not complete
  the pattern.
\<close>

lemma replaceAllBy_no_occurrence:
  assumes closed: "\<And>c s. ok (c # s) \<Longrightarrow> ok s"
    and start: "\<And>s. ok s \<Longrightarrow> m s = None \<Longrightarrow> \<not> prefix (a # q) s"
    and first: "\<And>s n rep. m s = Some (n, rep) \<Longrightarrow> rep \<noteq> [] \<and> hd rep \<notin> set q"
    and barrier: "\<And>c s n rep v. ok (c # s) \<Longrightarrow> m (c # s) = Some (n, rep) \<Longrightarrow>
        (prefix q v \<longrightarrow> prefix q (drop (n - 1) s)) \<Longrightarrow> \<not> sublist (a # q) v \<Longrightarrow>
        \<not> sublist (a # q) (rep @ v)"
    and "ok s"
  shows "\<not> sublist (a # q) (replaceAllBy m s)"
  using \<open>ok s\<close>
proof (induction s rule: length_induct)
  case (1 s)
  have dropped: "ok (drop k t)" if "ok t" for k t
    using that
  proof (induction t arbitrary: k)
    case Nil
    then show ?case by simp
  next
    case (Cons c t)
    then show ?case
      by (cases k) (auto dest: closed)
  qed
  have reflect: "prefix q (replaceAllBy m t) \<Longrightarrow> prefix q t" for t
    by (rule replaceAllBy_prefix [where A = "set q"]) (use first in auto)
  show ?case
  proof (cases s)
    case Nil
    then show ?thesis by simp
  next
    case (Cons c t)
    show ?thesis
    proof (cases "m (c # t)")
      case None
      have "\<not> sublist (a # q) (replaceAllBy m t)"
        using 1 Cons closed by auto
      moreover have "\<not> prefix (a # q) (c # replaceAllBy m t)"
      proof
        assume "prefix (a # q) (c # replaceAllBy m t)"
        then have "a = c" and "prefix q t"
          using reflect by auto
        then have "prefix (a # q) (c # t)"
          by simp
        with start [of "c # t"] None 1(2) Cons show False
          by simp
      qed
      ultimately show ?thesis
        using None Cons by (simp add: sublist_Cons_right)
    next
      case (Some y)
      obtain n rep where y: "y = (n, rep)"
        by (cases y)
      let ?r = "drop (n - 1) t"
      have "ok ?r"
        using 1(2) Cons closed dropped by blast
      then have "\<not> sublist (a # q) (replaceAllBy m ?r)"
        using 1(1) Cons by simp
      moreover have "prefix q (replaceAllBy m ?r) \<longrightarrow> prefix q ?r"
        using reflect by blast
      ultimately have "\<not> sublist (a # q) (rep @ replaceAllBy m ?r)"
        using barrier [of c t n rep "replaceAllBy m ?r"] 1(2) Cons Some y by simp
      then show ?thesis
        using Some y Cons by simp
    qed
  qed
qed

text \<open>The same for a string in which the pattern does not occur.\<close>

lemma replaceAllBy_preserves:
  assumes first: "\<And>s n rep. m s = Some (n, rep) \<Longrightarrow> rep \<noteq> [] \<and> hd rep \<notin> set q"
    and barrier: "\<And>c s n rep v. \<not> sublist (a # q) (c # s) \<Longrightarrow> m (c # s) = Some (n, rep) \<Longrightarrow>
        (prefix q v \<longrightarrow> prefix q (drop (n - 1) s)) \<Longrightarrow> \<not> sublist (a # q) v \<Longrightarrow>
        \<not> sublist (a # q) (rep @ v)"
    and "\<not> sublist (a # q) s"
  shows "\<not> sublist (a # q) (replaceAllBy m s)"
proof (rule replaceAllBy_no_occurrence [where ok = "\<lambda>s. \<not> sublist (a # q) s"])
  show "\<not> sublist (a # q) s" if "\<not> sublist (a # q) (c # s)" for c s
    using that by (simp add: sublist_Cons_right)
  show "\<not> prefix (a # q) s" if "\<not> sublist (a # q) s" for s
    using that prefix_imp_sublist by blast
qed (use assms in blast)+

text \<open>A replacement without the first character of the pattern is no part of an occurrence.\<close>

lemma barrier_without:
  assumes "a \<notin> set rep" and "\<not> sublist (a # q) v"
  shows "\<not> sublist (a # q) (rep @ v)"
  using assms by (induction rep) (auto simp: sublist_Cons_right)

text \<open>
  Nor is one that starts with that character, holds it nowhere else and goes on
  differently from the pattern.
\<close>

lemma barrier_first:
  assumes "a \<notin> set rep" and "rep \<noteq> []" and "q \<noteq> []" and "hd q \<noteq> hd rep"
    and "\<not> sublist (a # q) v"
  shows "\<not> sublist (a # q) ((a # rep) @ v)"
proof -
  have "\<not> sublist (a # q) (rep @ v)"
    using assms(1,5) by (rule barrier_without)
  moreover have "\<not> prefix q (rep @ v)"
    using assms(2-4) by (cases rep; cases q) auto
  ultimately show ?thesis
    by (simp add: sublist_Cons_right)
qed

lemma replace_string_preserves:
  assumes "rep \<noteq> []" and "a \<notin> set rep" and "hd rep \<notin> set q" and "\<not> sublist (a # q) s"
  shows "\<not> sublist (a # q) (replaceAllBy (match_string pat rep) s)"
proof (rule replaceAllBy_preserves)
  show "r \<noteq> [] \<and> hd r \<notin> set q" if "match_string pat rep t = Some (n, r)" for t n r
    using that assms(1,3) by (simp add: match_string_Some)
  show "\<not> sublist (a # q) (r @ v)"
    if "match_string pat rep (c # t) = Some (n, r)" and "\<not> sublist (a # q) v" for c t n r v
    using that assms(2) barrier_without [of a rep q v] by (simp add: match_string_Some)
qed (rule assms)

lemma divTag_Cons: \<open>divTag d = CHR ''<'' # (''div data-typedoc-h="'' @ [d] @ ''"'')\<close>
  by (simp add: divTag_def)

lemma hOpen_preserves:
  assumes "q \<noteq> []" and "hd q \<noteq> CHR ''d''" and "CHR ''<'' \<notin> set q"
    and "\<not> sublist (CHR ''<'' # q) s"
  shows "\<not> sublist (CHR ''<'' # q) (replaceAllBy match_hOpen s)"
proof (rule replaceAllBy_preserves)
  show "rep \<noteq> [] \<and> hd rep \<notin> set q" if "match_hOpen t = Some (n, rep)" for t n rep
    using match_hOpen_Some [OF that] assms(3) by (auto simp: divTag_def)
  show "\<not> sublist (CHR ''<'' # q) (rep @ v)"
    if "match_hOpen (c # t) = Some (n, rep)" and "\<not> sublist (CHR ''<'' # q) v" for c t n rep v
  proof -
    from match_hOpen_Some [OF that(1)] obtain d where d: "d \<in> set ''123456''" and "rep = divTag d"
      by blast
    then have rep: \<open>rep = CHR ''<'' # (''div data-typedoc-h="'' @ [d] @ ''"'')\<close>
      by (simp add: divTag_Cons)
    show ?thesis
      unfolding rep using assms(1,2) that(2) d by (intro barrier_first) auto
  qed
qed (rule assms)

lemma hClose_preserves:
  assumes "q \<noteq> []" and "hd q \<noteq> CHR ''/''" and "CHR ''<'' \<notin> set q"
    and "\<not> sublist (CHR ''<'' # q) s"
  shows "\<not> sublist (CHR ''<'' # q) (replaceAllBy match_hClose s)"
proof (rule replaceAllBy_preserves)
  show "rep \<noteq> [] \<and> hd rep \<notin> set q" if "match_hClose t = Some (n, rep)" for t n rep
    using match_hClose_Some [OF that] assms(3) by auto
  show "\<not> sublist (CHR ''<'' # q) (rep @ v)"
    if "match_hClose (c # t) = Some (n, rep)" and "\<not> sublist (CHR ''<'' # q) v" for c t n rep v
  proof -
    from match_hClose_Some [OF that(1)] have rep: "rep = CHR ''<'' # ''/div>''"
      by simp
    show ?thesis
      unfolding rep using assms(1,2) that(2) by (intro barrier_first) auto
  qed
qed (rule assms)

lemma hOpen_removes:
  assumes "d \<in> set ''123456''"
  shows "\<not> sublist [CHR ''<'', CHR ''h'', d] (replaceAllBy match_hOpen s)"
proof (rule replaceAllBy_no_occurrence [where ok = "\<lambda>s. True"])
  show "\<not> prefix [CHR ''<'', CHR ''h'', d] t" if "match_hOpen t = None" for t
    using that assms by (auto simp: match_hOpen_def split: list.splits if_splits)
  show "rep \<noteq> [] \<and> hd rep \<notin> set [CHR ''h'', d]" if "match_hOpen t = Some (n, rep)" for t n rep
    using match_hOpen_Some [OF that] assms by (auto simp: divTag_def)
  show "\<not> sublist [CHR ''<'', CHR ''h'', d] (rep @ v)"
    if "match_hOpen (c # t) = Some (n, rep)" and "\<not> sublist [CHR ''<'', CHR ''h'', d] v"
    for c t n rep v
  proof -
    from match_hOpen_Some [OF that(1)] obtain e where e: "e \<in> set ''123456''" and "rep = divTag e"
      by blast
    then have rep: \<open>rep = CHR ''<'' # (''div data-typedoc-h="'' @ [e] @ ''"'')\<close>
      by (simp add: divTag_Cons)
    show ?thesis
      unfolding rep using that(2) e by (intro barrier_first) auto
  qed
qed simp_all

lemma hClose_removes:
  assumes "d \<in> set ''123456''"
  shows "\<not> sublist [CHR ''<'', CHR ''/'', CHR ''h'', d, CHR ''>''] (replaceAllBy match_hClose s)"
proof (rule replaceAllBy_no_occurrence [where ok = "\<lambda>s. True"])
  show "\<not> prefix [CHR ''<'', CHR ''/'', CHR ''h'', d, CHR ''>''] t" if "match_hClose t = None" for t
    using that assms by (auto simp: match_hClose_def split: list.splits if_splits)
  show "rep \<noteq> [] \<and> hd rep \<notin> set [CHR ''/'', CHR ''h'', d, CHR ''>'']"
    if "match_hClose t = Some (n, rep)" for t n rep
    using match_hClose_Some [OF that] assms by auto
  show "\<not> sublist [CHR ''<'', CHR ''/'', CHR ''h'', d, CHR ''>''] (rep @ v)"
    if "match_hClose (c # t) = Some (n, rep)"
      and "\<not> sublist [CHR ''<'', CHR ''/'', CHR ''h'', d, CHR ''>''] v"
    for c t n rep v
    using match_hClose_Some [OF that(1)] that(2) by (simp add: sublist_Cons_right)
qed simp_all

lemma match_newlines_shape:
  assumes "match_newlines s = Some (n, rep)"
  shows "rep = '' <'' \<and> 1 \<le> n \<and> drop (n - 1) s = CHR ''<'' # drop n s"
proof -
  let ?k = "length (takeWhile (\<lambda>c. c = newline) s)"
  from assms have n: "n = ?k + 1" and rep: "rep = '' <''" and "prefix ''<'' (drop ?k s)"
    by (auto simp: match_newlines_def Let_def split: if_splits)
  then obtain r where r: "drop ?k s = CHR ''<'' # r"
    by (auto simp: prefix_def)
  then have "r = drop (Suc ?k) s"
    by (metis drop_Suc drop_drop list.sel(3) plus_1_eq_Suc tl_drop)
  with n rep r show ?thesis
    by simp
qed

lemma newlines_preserves:
  assumes "CHR '' '' \<notin> set q" and "\<not> sublist (CHR ''<'' # q) s"
  shows "\<not> sublist (CHR ''<'' # q) (replaceAllBy match_newlines s)"
proof (rule replaceAllBy_preserves)
  show "rep \<noteq> [] \<and> hd rep \<notin> set q" if "match_newlines t = Some (n, rep)" for t n rep
    using match_newlines_Some [OF that] assms(1) by simp
  show "\<not> sublist (CHR ''<'' # q) (rep @ v)"
    if no: "\<not> sublist (CHR ''<'' # q) (c # t)"
      and m: "match_newlines (c # t) = Some (n, rep)"
      and q: "prefix q v \<longrightarrow> prefix q (drop (n - 1) t)"
      and v: "\<not> sublist (CHR ''<'' # q) v"
    for c t n rep v
  proof
    assume "sublist (CHR ''<'' # q) (rep @ v)"
    moreover from match_newlines_shape [OF m]
    have rep: "rep = '' <''" and n: "1 \<le> n" and d: "drop (n - 1) (c # t) = CHR ''<'' # drop n (c # t)"
      by simp_all
    ultimately have "prefix q v"
      using v by (simp add: sublist_Cons_right)
    with q have "prefix q (drop (n - 1) t)"
      by simp
    moreover from n have "drop n (c # t) = drop (n - 1) t"
      by (cases n) simp_all
    ultimately have "prefix (CHR ''<'' # q) (drop (n - 1) (c # t))"
      using d by simp
    then have "sublist (CHR ''<'' # q) (drop (n - 1) (c # t))"
      by (rule prefix_imp_sublist)
    then have "sublist (CHR ''<'' # q) (c # t)"
      using sublist_drop sublist_order.order_trans by blast
    with no show False
      by simp
  qed
qed (rule assms)

lemma later_rewrites_preserve:
  assumes q: "set q \<inter> {CHR '' '', nbsp, CHR ''&''} = {}"
    and s: "\<not> sublist (CHR ''<'' # q) s"
  shows "\<not> sublist (CHR ''<'' # q) (escapeMarkdown (joinTagLines (encodeNbsp (reduceIndent s))))"
proof -
  have string: "\<not> sublist (CHR ''<'' # q) (replaceAllBy (match_string pat rep) t)"
    if "\<not> sublist (CHR ''<'' # q) t" and "rep \<noteq> []" and "CHR ''<'' \<notin> set rep"
      and "hd rep = nbsp \<or> hd rep = CHR ''&''" for pat rep t
    using that q by (intro replace_string_preserves) auto
  have 2: "\<not> sublist (CHR ''<'' # q) (reduceIndent s)"
    unfolding reduceIndent_def using s by (rule string) simp_all
  then have 3: "\<not> sublist (CHR ''<'' # q) (encodeNbsp (reduceIndent s))"
    unfolding encodeNbsp_def by (rule string) simp_all
  have 4: "\<not> sublist (CHR ''<'' # q) (joinTagLines (encodeNbsp (reduceIndent s)))"
    unfolding joinTagLines_def using q 3 by (intro newlines_preserves) auto
  show ?thesis
    unfolding escapeMarkdown_def
    by (intro string 4) simp_all
qed

lemma sanitizeEscaped_no_opening:
  assumes "d \<in> set ''123456''"
  shows "\<not> sublist [CHR ''<'', CHR ''h'', d] (sanitizeEscaped s)"
proof -
  have "\<not> sublist [CHR ''<'', CHR ''h'', d] (replaceAllBy match_hOpen s)"
    using assms by (rule hOpen_removes)
  then have "\<not> sublist [CHR ''<'', CHR ''h'', d] (convertHeadings s)"
    unfolding convertHeadings_def using assms by (intro hClose_preserves) auto
  then show ?thesis
    unfolding sanitizeEscaped_def using assms by (intro later_rewrites_preserve) auto
qed

lemma sanitizeEscaped_no_closing:
  assumes "d \<in> set ''123456''"
  shows "\<not> sublist [CHR ''<'', CHR ''/'', CHR ''h'', d, CHR ''>''] (sanitizeEscaped s)"
proof -
  have "\<not> sublist [CHR ''<'', CHR ''/'', CHR ''h'', d, CHR ''>''] (convertHeadings s)"
    unfolding convertHeadings_def using assms by (rule hClose_removes)
  then show ?thesis
    unfolding sanitizeEscaped_def using assms by (intro later_rewrites_preserve) auto
qed

lemma sanitizeEscaped_no_TJS:
  assumes "\<not> sublist ''<p>@TJS-type'' s"
  shows "\<not> sublist ''<p>@TJS-type'' (sanitizeEscaped s)"
proof -
  have "\<not> sublist ''<p>@TJS-type'' (replaceAllBy match_hOpen s)"
    using assms by (intro hOpen_preserves) simp_all
  then have "\<not> sublist ''<p>@TJS-type'' (convertHeadings s)"
    unfolding convertHeadings_def by (intro hClose_preserves) simp_all
  then show ?thesis
    unfolding sanitizeEscaped_def by (intro later_rewrites_preserve) simp_all
qed

lemma replaceAllBy_no_match:
  assumes "\<And>k. m (drop k s) = None"
  shows "replaceAllBy m s = s"
  using assms
proof (induction s)
  case Nil
  then show ?case by simp
next
  case (Cons c s)
  from Cons.prems [of 0] have "m (c # s) = None"
    by simp
  moreover have "m (drop k s) = None" for k
    using Cons.prems [of "Suc k"] by simp
  ultimately show ?case
    using Cons.IH by simp
qed

lemma removeTJS_unchanged:
  assumes "\<not> sublist ''<p>@TJS-type'' s"
  shows "removeTJS s = s"
  unfolding removeTJS_def
proof (rule replaceAllBy_no_match)
  fix k
  show "match_TJS (drop k s) = None"
  proof (rule ccontr)
    assume "match_TJS (drop k s) \<noteq> None"
    then have "prefix ''<p>@TJS-type '' (drop k s)"
      by (auto simp: match_TJS_def split: if_splits)
    then have "prefix (''<p>@TJS-type'' @ '' '') (drop k s)"
      by simp
    then have "prefix ''<p>@TJS-type'' (drop k s)"
      using append_prefixD by blast
    then have "sublist ''<p>@TJS-type'' s"
      using prefix_imp_sublist sublist_drop sublist_order.order_trans by blast
    with assms show False
      by simp
  qed
qed
























section \<open>The rewrites, applied twice\<close>

lemma joinTagLines_no_break: "\<not> sublist [newline, CHR ''<''] (joinTagLines s)"
  unfolding joinTagLines_def
proof (rule replaceAllBy_no_occurrence [where ok = "\<lambda>s. True"])
  show "\<not> prefix [newline, CHR ''<''] t" if "match_newlines t = None" for t
  proof
    assume "prefix [newline, CHR ''<''] t"
    then obtain r where "t = newline # CHR ''<'' # r"
      by (auto simp: prefix_def)
    then have "match_newlines t \<noteq> None"
      by (simp add: match_newlines_def)
    with that show False
      by simp
  qed
  show "rep \<noteq> [] \<and> hd rep \<notin> set ''<''" if "match_newlines t = Some (n, rep)" for t n rep
    using match_newlines_Some [OF that] by simp
  show "\<not> sublist [newline, CHR ''<''] (rep @ v)"
    if "match_newlines (c # t) = Some (n, rep)" and "\<not> sublist [newline, CHR ''<''] v"
    for c t n rep v
    using match_newlines_Some [OF that(1)] that(2) by (simp add: sublist_Cons_right)
qed simp_all

lemma escapeMarkdown_no_break:
  assumes "\<not> sublist [newline, CHR ''<''] s"
  shows "\<not> sublist [newline, CHR ''<''] (escapeMarkdown s)"
proof -
  have string: "\<not> sublist [newline, CHR ''<''] (replaceAllBy (match_string pat rep) t)"
    if "\<not> sublist [newline, CHR ''<''] t" and "rep \<noteq> []" and "newline \<notin> set rep"
      and "hd rep = CHR ''&''" for pat rep t
    using that by (intro replace_string_preserves) simp_all
  show ?thesis
    unfolding escapeMarkdown_def by (intro string assms) simp_all
qed

lemma joinTagLines_unchanged:
  assumes "\<not> sublist [newline, CHR ''<''] s"
  shows "joinTagLines s = s"
  unfolding joinTagLines_def
proof (rule replaceAllBy_no_match)
  fix k
  show "match_newlines (drop k s) = None"
  proof (rule ccontr)
    assume "match_newlines (drop k s) \<noteq> None"
    let ?t = "drop k s"
    let ?w = "takeWhile (\<lambda>c. c = newline) ?t"
    from \<open>match_newlines ?t \<noteq> None\<close> have w: "?w \<noteq> []" and "prefix ''<'' (drop (length ?w) ?t)"
      by (auto simp: match_newlines_def Let_def split: if_splits)
    then obtain r where "drop (length ?w) ?t = CHR ''<'' # r"
      by (auto simp: prefix_def)
    then have "dropWhile (\<lambda>c. c = newline) ?t = CHR ''<'' # r"
      by (simp add: dropWhile_eq_drop)
    then have t: "?t = ?w @ CHR ''<'' # r"
      by (metis takeWhile_dropWhile_id)
    have "last ?w \<in> set ?w"
      using w by simp
    then have "last ?w = newline"
      using set_takeWhileD by fastforce
    with w have "?w = butlast ?w @ [newline]"
      by (metis append_butlast_last_id)
    with t have "?t = butlast ?w @ [newline, CHR ''<''] @ r"
      by (metis append_Cons append_Nil append.assoc)
    then have "sublist [newline, CHR ''<''] ?t"
      unfolding sublist_def by blast
    then have "sublist [newline, CHR ''<''] s"
      using sublist_drop sublist_order.order_trans by blast
    with assms show False
      by simp
  qed
qed

lemma convertHeadings_unchanged:
  assumes "\<And>d. d \<in> set ''123456'' \<Longrightarrow> \<not> sublist [CHR ''<'', CHR ''h'', d] s"
    and "\<And>d. d \<in> set ''123456'' \<Longrightarrow> \<not> sublist [CHR ''<'', CHR ''/'', CHR ''h'', d, CHR ''>''] s"
  shows "convertHeadings s = s"
proof -
  have "match_hOpen (drop k s) = None" for k
  proof (rule ccontr)
    assume "match_hOpen (drop k s) \<noteq> None"
    then obtain d r where "d \<in> set ''123456''" and "drop k s = [CHR ''<'', CHR ''h'', d] @ r"
      by (auto simp: match_hOpen_def split: list.splits if_splits)
    then have "d \<in> set ''123456''" and "sublist [CHR ''<'', CHR ''h'', d] (drop k s)"
      by (simp_all only: sublist_append_rightI)
    then show False
      using assms(1) sublist_drop sublist_order.order_trans by blast
  qed
  then have 1: "replaceAllBy match_hOpen s = s"
    by (rule replaceAllBy_no_match)
  have "match_hClose (drop k s) = None" for k
  proof (rule ccontr)
    assume "match_hClose (drop k s) \<noteq> None"
    then obtain d r where "d \<in> set ''123456''"
      and "drop k s = [CHR ''<'', CHR ''/'', CHR ''h'', d, CHR ''>''] @ r"
      by (auto simp: match_hClose_def split: list.splits if_splits)
    then have "d \<in> set ''123456''"
      and "sublist [CHR ''<'', CHR ''/'', CHR ''h'', d, CHR ''>''] (drop k s)"
      by (simp_all only: sublist_append_rightI)
    then show False
      using assms(2) sublist_drop sublist_order.order_trans by blast
  qed
  then have "replaceAllBy match_hClose s = s"
    by (rule replaceAllBy_no_match)
  with 1 show ?thesis
    by (simp add: convertHeadings_def)
qed

lemma sanitize_twice:
  assumes "\<not> sublist ''<p>@TJS-type'' s"
  shows "sanitize (sanitize s) = sanitize s"
proof -
  let ?e = "sanitizeEscaped s"
  have e: "\<not> sublist ''<p>@TJS-type'' ?e"
    using assms by (rule sanitizeEscaped_no_TJS)
  then have same: "sanitize s = ?e"
    unfolding sanitize_def by (rule removeTJS_unchanged)
  have special: "set ?e \<inter> {nbsp, CHR ''['', CHR ''_'', CHR ''{''} = {}"
    using sanitize_avoids [of s] same by simp
  have 1: "convertHeadings ?e = ?e"
    by (rule convertHeadings_unchanged) (rule sanitizeEscaped_no_opening sanitizeEscaped_no_closing; assumption)+
  have 2: "reduceIndent ?e = ?e" and 3: "encodeNbsp ?e = ?e"
    using special by (auto intro: reduceIndent_unchanged encodeNbsp_unchanged)
  have "\<not> sublist [newline, CHR ''<''] ?e"
    unfolding sanitizeEscaped_def by (intro escapeMarkdown_no_break joinTagLines_no_break)
  then have 4: "joinTagLines ?e = ?e"
    by (rule joinTagLines_unchanged)
  have 5: "escapeMarkdown ?e = ?e"
    using special by (intro escapeMarkdown_unchanged) auto
  have "sanitizeEscaped ?e = ?e"
    by (simp add: sanitizeEscaped_def [of ?e] 1 2 3 4 5)
  moreover have "removeTJS ?e = ?e"
    using e by (rule removeTJS_unchanged)
  ultimately show ?thesis
    unfolding same by (simp add: sanitize_def [of ?e])
qed

text \<open>
  Claim C8. The sanitized content holds no non-breaking space and none of the characters
  \<open>[\<close>, \<open>_\<close> and \<open>{\<close>: the entities that replace them hold none. So in a second
  application of the rewrites the substitutions 2, 3 and 5 leave their input as it is,
  and the entities of the first application are not escaped again: the second
  application comes to the heading rewrite, the joining of tag lines and the removal of
  the type-hint paragraphs. Each of the two escapes, applied twice in a row, gives what
  it gives once; and so does the whole sequence on a fragment without \<open><p>@TJS-type\<close>.
\<close>

theorem sanitize_escapes_once:
  "set (sanitize c) \<inter> {nbsp, CHR ''['', CHR ''_'', CHR ''{''} = {}
   \<and> reduceIndent (convertHeadings (sanitize c)) = convertHeadings (sanitize c)
   \<and> encodeNbsp (reduceIndent (convertHeadings (sanitize c))) =
       reduceIndent (convertHeadings (sanitize c))
   \<and> escapeMarkdown (joinTagLines (encodeNbsp (reduceIndent (convertHeadings (sanitize c))))) =
       joinTagLines (encodeNbsp (reduceIndent (convertHeadings (sanitize c))))
   \<and> sanitize (sanitize c) = removeTJS (joinTagLines (convertHeadings (sanitize c)))
   \<and> encodeNbsp (encodeNbsp c) = encodeNbsp c
   \<and> escapeMarkdown (escapeMarkdown c) = escapeMarkdown c
   \<and> (\<not> sublist ''<p>@TJS-type'' c \<longrightarrow> sanitize (sanitize c) = sanitize c)"
proof -
  let ?h = "convertHeadings (sanitize c)"
  have clean: "set (sanitize c) \<inter> {nbsp, CHR ''['', CHR ''_'', CHR ''{''} = {}"
    by (rule sanitize_avoids)
  then have h: "set ?h \<inter> {nbsp, CHR ''['', CHR ''_'', CHR ''{''} = {}"
    by (rule convertHeadings_avoids)
  then have nbsp: "nbsp \<notin> set ?h"
    by auto
  then have indent: "reduceIndent ?h = ?h"
    by (rule reduceIndent_unchanged)
  from nbsp have entity: "encodeNbsp ?h = ?h"
    by (rule encodeNbsp_unchanged)
  from h have "set ?h \<inter> {nbsp, CHR ''['', CHR ''_'', CHR ''{''} \<subseteq> {}"
    by simp
  then have "set (joinTagLines ?h) \<inter> {nbsp, CHR ''['', CHR ''_'', CHR ''{''} \<subseteq> {}"
    by (rule joinTagLines_avoids)
  then have "set (joinTagLines ?h) \<inter> {CHR ''['', CHR ''_'', CHR ''{''} = {}"
    by auto
  then have escape: "escapeMarkdown (joinTagLines ?h) = joinTagLines ?h"
    by (rule escapeMarkdown_unchanged)
  have twice: "sanitize (sanitize c) = removeTJS (joinTagLines ?h)"
    by (simp add: sanitize_def [of "sanitize c"] sanitizeEscaped_def indent entity escape)
  have "encodeNbsp (encodeNbsp c) = encodeNbsp c"
    by (intro encodeNbsp_unchanged encodeNbsp_removes)
  moreover have "escapeMarkdown (escapeMarkdown c) = escapeMarkdown c"
    by (intro escapeMarkdown_unchanged escapeMarkdown_removes)
  moreover have "\<not> sublist ''<p>@TJS-type'' c \<longrightarrow> sanitize (sanitize c) = sanitize c"
    using sanitize_twice by blast
  ultimately show ?thesis
    using clean twice by (simp add: indent entity escape)
qed

theorem sanitize_escapes_once_witness:
  "\<not> sublist ''<p>@TJS-type'' (nbsp # ''[_{x'')
   \<and> sanitize (nbsp # ''[_{x'') = ''&nbsp;&#x5B;&#x5F;&#x7B;x''
   \<and> sanitize (sanitize (nbsp # ''[_{x'')) = ''&nbsp;&#x5B;&#x5F;&#x7B;x''"
proof -
  have plain: "\<not> sublist ''<p>@TJS-type'' (nbsp # ''[_{x'')"
    by (simp add: sublist_Cons_right)
  have once: "sanitize (nbsp # ''[_{x'') = ''&nbsp;&#x5B;&#x5F;&#x7B;x''"
    by code_simp
  from sanitize_escapes_once [of "nbsp # ''[_{x''"] plain
  have "sanitize (sanitize (nbsp # ''[_{x'')) = sanitize (nbsp # ''[_{x'')"
    by blast
  with plain once show ?thesis
    by simp
qed

text \<open>
  The whole sequence is not idempotent on every fragment: the removal of a type-hint
  paragraph can leave a heading tag, or another such paragraph, for a second application.
\<close>

lemma sanitize_twice_differs:
  \<open>sanitize splicedMarkup = ''<div data-typedoc-h="1"><h1>''
   \<and> sanitize (sanitize splicedMarkup) = ''<div data-typedoc-h="1"><div data-typedoc-h="1">''\<close>
  by code_simp

end
